theory Spec2Isabelle
  imports Main "HOL-Library.AList" "HOL-Library.Word"
begin

unbundle bit_operations_syntax

section \<open>Keys: \<open>SnowflakeCore.sanitizeKey\<close>\<close>

text \<open>
  A JavaScript string is a sequence of 16-bit code units, and a regular expression
  without the \<open>u\<close> flag matches it code unit by code unit. \<open>sanitizeKey\<close> is given on
  such sequences. The class \<open>\s\<close> holds the white space and the line terminators of
  ECMAScript: tab, line feed, vertical tab, form feed, carriage return, space, no-break
  space, U+1680, U+2000 to U+200A, U+2028, U+2029, U+202F, U+205F, U+3000 and U+FEFF.
\<close>

definition is_space :: "16 word \<Rightarrow> bool" where
  "is_space u =
     (u \<in> set [0x09, 0x0A, 0x0B, 0x0C, 0x0D, 0x20, 0xA0, 0x1680, 0x2000, 0x2001, 0x2002, 0x2003,
               0x2004, 0x2005, 0x2006, 0x2007, 0x2008, 0x2009, 0x200A, 0x2028, 0x2029, 0x202F,
               0x205F, 0x3000, 0xFEFF])"

text \<open>
  The code units the class \<open>[a-zA-Z0-9\-_]\<close> matches: the letters \<open>a\<close> to \<open>z\<close> (0x61 to
  0x7A) and \<open>A\<close> to \<open>Z\<close> (0x41 to 0x5A), the digits (0x30 to 0x39), the hyphen (0x2D) and
  the underscore (0x5F).
\<close>

definition is_key_char :: "16 word \<Rightarrow> bool" where
  "is_key_char u =
     ((0x61 \<le> u \<and> u \<le> 0x7A) \<or> (0x41 \<le> u \<and> u \<le> 0x5A) \<or> (0x30 \<le> u \<and> u \<le> 0x39)
      \<or> u = 0x2D \<or> u = 0x5F)"

text \<open>\<open>key.replace(/^_+|_+$/g, "")\<close>: the leading and the trailing run of underscores go.\<close>

definition strip_underscores :: "16 word list \<Rightarrow> 16 word list" where
  "strip_underscores s = rev (dropWhile (\<lambda>u. u = 0x5F) (rev (dropWhile (\<lambda>u. u = 0x5F) s)))"

definition sanitizeKey :: "16 word list \<Rightarrow> bool \<Rightarrow> 16 word list" where
  "sanitizeKey key trim =
     (let key1 = map (\<lambda>u. if is_space u then 0x5F else u) key;
          key2 = filter is_key_char key1
      in if trim then strip_underscores key2 else key2)"

text \<open>
  Everywhere else a JavaScript string is modelled as a \<^typ>\<open>string\<close>, a \<^typ>\<open>char\<close>
  standing for a code unit below 256. \<open>units\<close> gives the code units of such a string and
  \<open>chars\<close> goes back; \<open>sanitizeKey_str\<close> is \<open>sanitizeKey\<close> on such a string.
\<close>

definition units :: "string \<Rightarrow> 16 word list" where
  "units s = map (\<lambda>c. word_of_nat (of_char c)) s"

definition chars :: "16 word list \<Rightarrow> string" where
  "chars us = map (\<lambda>u. char_of (unat u)) us"

definition sanitizeKey_str :: "string \<Rightarrow> bool \<Rightarrow> string" where
  "sanitizeKey_str key trim = chars (sanitizeKey (units key) trim)"

text \<open>The members of \<open>\s\<close> below 256, which are also what \<open>String.prototype.trim\<close> removes there.\<close>

definition is_white :: "char \<Rightarrow> bool" where
  "is_white c = (c \<in> set [CHR 0x09, CHR 0x0A, CHR 0x0B, CHR 0x0C, CHR 0x0D, CHR 0x20, CHR 0xA0])"

section \<open>Values\<close>

text \<open>
  The values the store holds (the tagged sum of the design notes): nil, booleans, numbers,
  strings, byte strings, sequences and string-keyed mappings. Numbers are the
  integer-valued ones; floating point is outside this embedding. A byte string lists
  its bytes. A mapping lists its own properties in the order JavaScript enumerates them.
\<close>

datatype jsval =
    VNil
  | VBool bool
  | VNum int
  | VStr string
  | VBytes "nat list"
  | VSeq "jsval list"
  | VMap "(string \<times> jsval) list"

text \<open>The values JavaScript treats as false in \<open>v || undefined\<close>.\<close>

fun falsy :: "jsval \<Rightarrow> bool" where
  "falsy VNil = True"
| "falsy (VBool b) = (\<not> b)"
| "falsy (VNum n) = (n = 0)"
| "falsy (VStr s) = (s = [])"
| "falsy (VBytes b) = False"
| "falsy (VSeq vs) = False"
| "falsy (VMap m) = False"

datatype js_error = TypeError | SyntaxError

subsection \<open>The binary codec\<close>

text \<open>
  Modelled from the spec: \<open>Snowflake.toBuffer\<close> is \<open>msgpack.encode\<close> of the
  \<open>msgpack-lite\<close> package, which is not part of the sources. Section 4.A fixes the
  wire format as MessagePack; the functions below follow that format. The store only
  uses the length of the encoding.
\<close>

fun be_bytes :: "nat \<Rightarrow> nat \<Rightarrow> nat list" where
  "be_bytes 0 n = []"
| "be_bytes (Suc k) n = be_bytes k (n div 256) @ [n mod 256]"

definition utf8 :: "string \<Rightarrow> nat list" where
  "utf8 s = concat (map (\<lambda>c. let n = of_char c in
                 if n < 128 then [n] else [192 + n div 64, 128 + n mod 64]) s)"

definition msgpack_int :: "int \<Rightarrow> nat list" where
  "msgpack_int n =
     (if 0 \<le> n then
        (if n < 128 then [nat n]
         else if n < 256 then 0xcc # be_bytes 1 (nat n)
         else if n < 65536 then 0xcd # be_bytes 2 (nat n)
         else if n < 4294967296 then 0xce # be_bytes 4 (nat n)
         else 0xcf # be_bytes 8 (nat n))
      else
        (if - 32 \<le> n then [nat (256 + n)]
         else if - 128 \<le> n then 0xd0 # be_bytes 1 (nat (256 + n))
         else if - 32768 \<le> n then 0xd1 # be_bytes 2 (nat (65536 + n))
         else if - 2147483648 \<le> n then 0xd2 # be_bytes 4 (nat (4294967296 + n))
         else 0xd3 # be_bytes 8 (nat (18446744073709551616 + n))))"

definition msgpack_str :: "string \<Rightarrow> nat list" where
  "msgpack_str s =
     (let b = utf8 s; n = length b in
      (if n < 32 then [0xa0 + n]
       else if n < 256 then 0xd9 # be_bytes 1 n
       else if n < 65536 then 0xda # be_bytes 2 n
       else 0xdb # be_bytes 4 n) @ b)"

definition msgpack_bin :: "nat list \<Rightarrow> nat list" where
  "msgpack_bin b =
     (let n = length b in
      (if n < 256 then 0xc4 # be_bytes 1 n
       else if n < 65536 then 0xc5 # be_bytes 2 n
       else 0xc6 # be_bytes 4 n) @ b)"

definition msgpack_count :: "nat \<Rightarrow> nat \<Rightarrow> nat \<Rightarrow> nat \<Rightarrow> nat list" where
  "msgpack_count fix16 t16 t32 n =
     (if n < 16 then [fix16 + n]
      else if n < 65536 then t16 # be_bytes 2 n
      else t32 # be_bytes 4 n)"

fun toBuffer :: "jsval \<Rightarrow> nat list" where
  "toBuffer VNil = [0xc0]"
| "toBuffer (VBool b) = (if b then [0xc3] else [0xc2])"
| "toBuffer (VNum n) = msgpack_int n"
| "toBuffer (VStr s) = msgpack_str s"
| "toBuffer (VBytes b) = msgpack_bin b"
| "toBuffer (VSeq vs) = msgpack_count 0x90 0xdc 0xdd (length vs) @ concat (map toBuffer vs)"
| "toBuffer (VMap m) =
     msgpack_count 0x80 0xde 0xdf (length m)
       @ concat (map (\<lambda>kv. msgpack_str (fst kv) @ toBuffer (snd kv)) m)"

subsection \<open>The digest\<close>

text \<open>
  Modelled from the spec: \<open>Snowflake.sha256(data, true)\<close> is
  \<open>createHash("sha256").update(Snowflake.toBuffer(data)).digest()\<close> of Node's \<open>crypto\<close>
  module, which is not part of the sources. Sections 3 and 4.A fix the digest as SHA-256;
  the functions below follow FIPS 180-4 (its 32-bit constants are written in decimal). \<open>sha256_hex\<close> is the digest of a key in the
  hexadecimal form that \<open>toString("hex")\<close> gives.
\<close>

definition sha256_K :: "32 word list" where
  "sha256_K =
     [1116352408, 1899447441, 3049323471, 3921009573, 961987163, 1508970993, 2453635748, 2870763221,
      3624381080, 310598401, 607225278, 1426881987, 1925078388, 2162078206, 2614888103, 3248222580,
      3835390401, 4022224774, 264347078, 604807628, 770255983, 1249150122, 1555081692, 1996064986,
      2554220882, 2821834349, 2952996808, 3210313671, 3336571891, 3584528711, 113926993, 338241895,
      666307205, 773529912, 1294757372, 1396182291, 1695183700, 1986661051, 2177026350, 2456956037,
      2730485921, 2820302411, 3259730800, 3345764771, 3516065817, 3600352804, 4094571909, 275423344,
      430227734, 506948616, 659060556, 883997877, 958139571, 1322822218, 1537002063, 1747873779,
      1955562222, 2024104815, 2227730452, 2361852424, 2428436474, 2756734187, 3204031479, 3329325298]"

definition sha256_H0 :: "32 word list" where
  "sha256_H0 =
     [1779033703, 3144134277, 1013904242, 2773480762, 1359893119, 2600822924, 528734635, 1541459225]"

definition sha256_pad :: "nat list \<Rightarrow> nat list" where
  "sha256_pad msg =
     msg @ [0x80] @ replicate ((119 - length msg mod 64) mod 64) 0 @ be_bytes 8 (8 * length msg)"

fun be_words :: "nat \<Rightarrow> nat list \<Rightarrow> 32 word list" where
  "be_words 0 bs = []"
| "be_words (Suc n) bs =
     (((word_of_nat (bs ! 0) * 256 + word_of_nat (bs ! 1)) * 256 + word_of_nat (bs ! 2)) * 256
        + word_of_nat (bs ! 3)) # be_words n (drop 4 bs)"

fun sha256_schedule :: "nat \<Rightarrow> 32 word list \<Rightarrow> 32 word list" where
  "sha256_schedule 0 w = w"
| "sha256_schedule (Suc n) w =
     (let t = length w;
          w15 = w ! (t - 15);
          w2 = w ! (t - 2);
          s0 = word_rotr 7 w15 XOR word_rotr 18 w15 XOR drop_bit 3 w15;
          s1 = word_rotr 17 w2 XOR word_rotr 19 w2 XOR drop_bit 10 w2
      in sha256_schedule n (w @ [w ! (t - 16) + s0 + w ! (t - 7) + s1]))"

definition sha256_round :: "32 word list \<Rightarrow> 32 word \<times> 32 word \<Rightarrow> 32 word list" where
  "sha256_round v kw =
     (let a = v ! 0; b = v ! 1; c = v ! 2; d = v ! 3; e = v ! 4; f = v ! 5; g = v ! 6; h = v ! 7;
          S1 = word_rotr 6 e XOR word_rotr 11 e XOR word_rotr 25 e;
          ch = (e AND f) XOR (NOT e AND g);
          t1 = h + S1 + ch + fst kw + snd kw;
          S0 = word_rotr 2 a XOR word_rotr 13 a XOR word_rotr 22 a;
          maj = (a AND b) XOR (a AND c) XOR (b AND c);
          t2 = S0 + maj
      in [t1 + t2, a, b, c, d + t1, e, f, g])"

definition sha256_block :: "32 word list \<Rightarrow> nat list \<Rightarrow> 32 word list" where
  "sha256_block hs block =
     (let w = sha256_schedule 48 (be_words 16 block);
          v = foldl sha256_round hs (zip sha256_K w)
      in map2 (+) hs v)"

definition sha256 :: "nat list \<Rightarrow> 32 word list" where
  "sha256 msg =
     (let padded = sha256_pad msg in
      foldl (\<lambda>hs i. sha256_block hs (take 64 (drop (64 * i) padded))) sha256_H0
        [0..<length padded div 64])"

definition hex_byte :: "nat \<Rightarrow> string" where
  "hex_byte b = [''0123456789abcdef'' ! (b div 16), ''0123456789abcdef'' ! (b mod 16)]"

definition sha256_hex :: "string \<Rightarrow> string" where
  "sha256_hex k =
     concat (map (\<lambda>w. concat (map hex_byte (be_bytes 4 (unat w)))) (sha256 (toBuffer (VStr k))))"

section \<open>The core: \<open>SnowflakeCore\<close>\<close>

text \<open>
  An entry of \<open>#lookup.key\<close>, as \<open>#setLookupKey\<close> builds it. The digest is carried
  in its hexadecimal form \<open>hash_str\<close>, which is what keys \<open>#lookup.value\<close>; the field
  \<open>hash\<close> is the same digest as a buffer.
\<close>

record key_entry =
  meid :: int
  name :: string
  hash_str :: string
  size_e :: int
  position_e :: int
  length_e :: int

text \<open>
  What reading a property of \<open>#lookup.key\<close> can give. The table is an ordinary object,
  so a key it does not hold itself is looked up in its prototype chain: in
  \<open>Object.prototype\<close>, whose properties are built-in functions, and, once an entry has
  been stored under the key \<open>__proto__\<close>, first in that entry, whose fields are numbers,
  strings and a buffer. Of a function and of a buffer only the \<open>length\<close> is kept, which
  is all the core reads. \<open>PEmptyObject\<close> is the \<open>{}\<close> of \<open>lookupKey\<close>.
\<close>

datatype jsprop =
    PUndefined
  | PEntry key_entry
  | PFunction nat
  | PObjectPrototype
  | PEmptyObject
  | PString string
  | PNumber int
  | PBuffer nat

text \<open>
  An entry of \<open>#lookup.trash\<close>, as \<open>remove\<close> pushes it: the \<open>size\<close>, \<open>position\<close> and
  \<open>length\<close> read from what the key table gave, \<open>None\<close> for \<open>undefined\<close>.
\<close>

record trash_slot =
  slot_size :: "int option"
  slot_position :: "int option"
  slot_length :: "int option"

text \<open>A request posted to the backup worker by \<open>askWorker\<close>.\<close>

record request =
  action :: string
  req_key :: string
  req_value :: jsval

text \<open>
  The private fields of \<open>SnowflakeCore\<close> that the operations below read or write.
  \<open>key_tbl\<close>, \<open>value_tbl\<close> and \<open>trash\<close> are the three parts of \<open>#lookup\<close>. \<open>key_tbl\<close> holds
  the own properties of \<open>#lookup.key\<close> (\<open>Some None\<close> is a property holding \<open>undefined\<close>)
  and \<open>key_proto\<close> the entry that has become its prototype (\<open>None\<close>: the prototype is
  still \<open>Object.prototype\<close>). \<open>#lookup.value\<close> is keyed by digests of 64 hexadecimal
  digits and only read through \<open>lookupValue\<close>, where a property holding \<open>undefined\<close> and
  a missing one read alike: both are \<open>None\<close> in \<open>value_tbl\<close>. The keys of \<open>#cache\<close> start
  with \<open>key_hash_\<close>. \<open>aol_worker\<close> is \<open>#workers.aol\<close>: \<open>None\<close> before \<open>start\<close> creates the
  worker, afterwards the requests posted to it so far, oldest first.
\<close>

record core =
  memory_monitor :: bool
  max_memory :: "int option"
  key_tbl :: "string \<rightharpoonup> key_entry option"
  key_proto :: "key_entry option"
  value_tbl :: "string \<rightharpoonup> jsval"
  trash :: "trash_slot list"
  cache :: "string \<rightharpoonup> string"
  current_meid :: int
  meids_size :: int
  aol_worker :: "request list option"

text \<open>
  The properties of \<open>Object.prototype\<close> (ECMAScript, with its Annex B), each a function
  with the number of its parameters as \<open>length\<close>; \<open>__proto__\<close>, an accessor, is
  treated in \<open>key_read\<close> and \<open>key_write\<close>.
\<close>

definition object_prototype :: "string \<Rightarrow> jsprop" where
  "object_prototype k =
     (if k \<in> set [''constructor'', ''hasOwnProperty'', ''isPrototypeOf'', ''propertyIsEnumerable'',
                   ''__lookupGetter__'', ''__lookupSetter__''] then PFunction 1
      else if k \<in> set [''toString'', ''toLocaleString'', ''valueOf''] then PFunction 0
      else if k \<in> set [''__defineGetter__'', ''__defineSetter__''] then PFunction 2
      else PUndefined)"

text \<open>The fields of an entry, read by name; \<open>hash\<close> is the digest as a buffer.\<close>

definition entry_field :: "key_entry \<Rightarrow> string \<Rightarrow> jsprop option" where
  "entry_field e k =
     (if k = ''meid'' then Some (PNumber (meid e))
      else if k = ''name'' then Some (PString (name e))
      else if k = ''hash'' then Some (PBuffer (length (hash_str e) div 2))
      else if k = ''hash_str'' then Some (PString (hash_str e))
      else if k = ''size'' then Some (PNumber (size_e e))
      else if k = ''position'' then Some (PNumber (position_e e))
      else if k = ''length'' then Some (PNumber (length_e e))
      else None)"

text \<open>\<open>this.#lookup.key[key]\<close>, read.\<close>

definition key_read :: "core \<Rightarrow> string \<Rightarrow> jsprop" where
  "key_read s k =
     (if k = ''__proto__'' then
        (case key_proto s of None \<Rightarrow> PObjectPrototype | Some e \<Rightarrow> PEntry e)
      else
        case key_tbl s k of
          Some own \<Rightarrow> (case own of None \<Rightarrow> PUndefined | Some e \<Rightarrow> PEntry e)
        | None \<Rightarrow>
            (case key_proto s of
               None \<Rightarrow> object_prototype k
             | Some e \<Rightarrow> (case entry_field e k of None \<Rightarrow> object_prototype k | Some p \<Rightarrow> p)))"

text \<open>
  \<open>this.#lookup.key[key] = v\<close>, where \<open>v\<close> is an entry or \<open>undefined\<close>. Under the key
  \<open>__proto__\<close> an entry becomes the prototype of the table and \<open>undefined\<close> changes
  nothing; any other key becomes, or stays, an own property.
\<close>

definition key_write :: "core \<Rightarrow> string \<Rightarrow> key_entry option \<Rightarrow> core" where
  "key_write s k v =
     (if k = ''__proto__'' then (case v of None \<Rightarrow> s | Some e \<Rightarrow> s\<lparr>key_proto := Some e\<rparr>)
      else s\<lparr>key_tbl := (key_tbl s)(k \<mapsto> v)\<rparr>)"

text \<open>What \<open>p || {}\<close> takes for false.\<close>

fun falsy_prop :: "jsprop \<Rightarrow> bool" where
  "falsy_prop PUndefined = True"
| "falsy_prop (PNumber n) = (n = 0)"
| "falsy_prop (PString t) = (t = [])"
| "falsy_prop p = False"

text \<open>The fields \<open>length\<close>, \<open>size\<close> and \<open>position\<close> of what the table gave.\<close>

fun prop_length :: "jsprop \<Rightarrow> int option" where
  "prop_length (PEntry e) = Some (length_e e)"
| "prop_length (PFunction n) = Some (int n)"
| "prop_length (PString t) = Some (int (length t))"
| "prop_length (PBuffer n) = Some (int n)"
| "prop_length p = None"

fun prop_size :: "jsprop \<Rightarrow> int option" where
  "prop_size (PEntry e) = Some (size_e e)"
| "prop_size p = None"

fun prop_position :: "jsprop \<Rightarrow> int option" where
  "prop_position (PEntry e) = Some (position_e e)"
| "prop_position p = None"

text \<open>
  \<open>#sha256\<close>. The digest function \<open>Snowflake.sha256\<close> (SHA-256, in hexadecimal form)
  is the parameter \<open>sha\<close> of every operation that hashes a key.
\<close>

definition sha256c :: "(string \<Rightarrow> string) \<Rightarrow> core \<Rightarrow> string \<Rightarrow> bool \<Rightarrow> string \<times> core" where
  "sha256c sha s k use_cache =
     (case (if use_cache then cache s (''key_hash_'' @ k) else None) of
        Some h \<Rightarrow> (h, s)
      | None \<Rightarrow>
          let hash = sha k in
          (hash, if use_cache then s\<lparr>cache := (cache s)(''key_hash_'' @ k \<mapsto> hash)\<rparr> else s))"

definition setLookupKey ::
  "(string \<Rightarrow> string) \<Rightarrow> core \<Rightarrow> string \<Rightarrow> int \<Rightarrow> int \<Rightarrow> int \<Rightarrow> string option \<Rightarrow> string \<times> core" where
  "setLookupKey sha s k meid_index sz position key_hash =
     (let (h, s1) = (case key_hash of None \<Rightarrow> sha256c sha s k True | Some h \<Rightarrow> (h, s)) in
      (h, key_write s1 k
            (Some \<lparr>meid = meid_index, name = k, hash_str = h, size_e = sz,
                   position_e = position, length_e = 36 + sz\<rparr>)))"

definition setLookupValue :: "core \<Rightarrow> string \<Rightarrow> jsval \<Rightarrow> core" where
  "setLookupValue s hash v = s\<lparr>value_tbl := (value_tbl s)(hash \<mapsto> v)\<rparr>"

definition nextMeid :: "core \<Rightarrow> int \<times> core" where
  "nextMeid s =
     (if meids_size s \<le> 1 then (0, s)
      else
        let c = current_meid s + 1;
            c' = (if c \<ge> meids_size s then - 1 else c)
        in (max c' 0, s\<lparr>current_meid := c'\<rparr>))"

text \<open>The shard indices that \<open>n\<close> successive calls of \<open>nextMeid\<close> return, and the state after them.\<close>

fun nextMeid_calls :: "nat \<Rightarrow> core \<Rightarrow> int list \<times> core" where
  "nextMeid_calls 0 s = ([], s)"
| "nextMeid_calls (Suc n) s =
     (let (i, s1) = nextMeid s; (is, s2) = nextMeid_calls n s1 in (i # is, s2))"

text \<open>\<open>this.#lookup.key[key] || {}\<close>.\<close>

definition lookupKey :: "core \<Rightarrow> string \<Rightarrow> jsprop" where
  "lookupKey s k = (let p = key_read s k in if falsy_prop p then PEmptyObject else p)"

text \<open>\<open>this.#lookup.value[hash] || undefined\<close>: a stored value that is falsy reads as missing.\<close>

definition lookupValue :: "core \<Rightarrow> string \<Rightarrow> jsval option" where
  "lookupValue s hash =
     (case value_tbl s hash of
        None \<Rightarrow> None
      | Some v \<Rightarrow> if falsy v then None else Some v)"

text \<open>
  \<open>this.lookupKey(key).length > 0\<close>: the field \<open>length\<close> of whatever the table gave is
  tested; where there is none the comparison \<open>undefined > 0\<close> is false.
\<close>

definition exist :: "core \<Rightarrow> string \<Rightarrow> bool" where
  "exist s k = (case prop_length (lookupKey s k) of None \<Rightarrow> False | Some n \<Rightarrow> n > 0)"

text \<open>\<open>askWorker("aol", request)\<close>: \<open>None\<close> is the \<open>null\<close> returned when there is no worker.\<close>

definition askWorker :: "core \<Rightarrow> request \<Rightarrow> core option" where
  "askWorker s r =
     (case aol_worker s of
        None \<Rightarrow> None
      | Some posted \<Rightarrow> Some (s\<lparr>aol_worker := Some (posted @ [r])\<rparr>))"

definition setUnsafe :: "(string \<Rightarrow> string) \<Rightarrow> core \<Rightarrow> string \<Rightarrow> jsval \<Rightarrow> nat \<times> core" where
  "setUnsafe sha s k v =
     (if k = [] then (0, s)
      else
        let (hash, s1) = sha256c sha s k True in
        if exist s1 k then (1, setLookupValue s1 hash v)
        else
          let data = toBuffer v;
              (index, s2) = nextMeid s1;
              (h, s3) = setLookupKey sha s2 k index (int (length data)) (- 1) (Some hash)
          in (2, setLookupValue s3 hash v))"

text \<open>
  \<open>set\<close>. Its \<open>confirm\<close> posts the request and returns \<open>true\<close>; without a worker,
  \<open>askWorker\<close> returns \<open>null\<close> and calling \<open>.then\<close> on it throws.
\<close>

definition set_entry :: "(string \<Rightarrow> string) \<Rightarrow> core \<Rightarrow> string \<Rightarrow> jsval \<Rightarrow> js_error + nat \<times> core" where
  "set_entry sha s k v =
     (let k1 = sanitizeKey_str k False in
      if k1 \<noteq> [] then
        (case askWorker s \<lparr>action = ''set'', req_key = k1, req_value = v\<rparr> of
           None \<Rightarrow> Inl TypeError
         | Some s1 \<Rightarrow> Inr (setUnsafe sha s1 k1 v))
      else Inr (0, s))"

definition get_entry :: "(string \<Rightarrow> string) \<Rightarrow> core \<Rightarrow> string \<Rightarrow> jsval \<Rightarrow> jsval \<times> core" where
  "get_entry sha s k def =
     (let (hash, s1) = sha256c sha s k True in
      (case lookupValue s1 hash of None \<Rightarrow> def | Some v \<Rightarrow> v, s1))"

text \<open>
  \<open>remove\<close>. A key is live when \<open>exist\<close> says so; then \<open>this.#lookup.key[key]\<close> is an
  object or a string that is not empty, and reading its fields does not throw.
\<close>

definition remove_entry :: "(string \<Rightarrow> string) \<Rightarrow> core \<Rightarrow> string \<Rightarrow> bool \<times> core" where
  "remove_entry sha s k =
     (if \<not> exist s k then (False, s)
      else
        let (hash, s1) = sha256c sha s k True;
            lookup = key_read s1 k;
            s2 = s1\<lparr>trash := trash s1 @ [\<lparr>slot_size = prop_size lookup,
                                            slot_position = prop_position lookup,
                                            slot_length = prop_length lookup\<rparr>]\<rparr>;
            s3 = key_write s2 k None
        in (True, s3\<lparr>value_tbl := (value_tbl s3)(hash := None)\<rparr>))"

section \<open>JavaScript objects and JSON\<close>

subsection \<open>Decimal numerals\<close>

definition digit_char :: "nat \<Rightarrow> char" where
  "digit_char d = ''0123456789'' ! d"

definition is_digit :: "char \<Rightarrow> bool" where
  "is_digit c = (c \<in> set ''0123456789'')"

definition digit_val :: "char \<Rightarrow> nat" where
  "digit_val c = of_char c - 48"

definition digits_val :: "string \<Rightarrow> nat" where
  "digits_val ds = foldl (\<lambda>a c. 10 * a + digit_val c) 0 ds"

function show_nat :: "nat \<Rightarrow> string" where
  "show_nat n = (if n < 10 then [digit_char n] else show_nat (n div 10) @ [digit_char (n mod 10)])"
  by pat_completeness auto
termination
  by (relation "measure id") auto

text \<open>
  \<open>Number.prototype.toString\<close> on an integer-valued number: the decimal digits, for the
  numbers JavaScript prints so (below \<open>10\<^sup>2\<^sup>1\<close> in magnitude).
\<close>

definition show_int :: "int \<Rightarrow> string" where
  "show_int i = (if i < 0 then CHR ''-'' # show_nat (nat (- i)) else show_nat (nat i))"

text \<open>The integers a JavaScript number holds exactly (\<open>Number.isSafeInteger\<close>).\<close>

definition safe_int :: "int \<Rightarrow> bool" where
  "safe_int i = (- 9007199254740991 \<le> i \<and> i \<le> 9007199254740991)"

subsection \<open>Property order\<close>

text \<open>
  An ordinary object enumerates its array-index keys first, in ascending numeric order,
  then its other string keys in the order they were created. An object is the list of
  its own properties in that order.
\<close>

definition array_index :: "string \<Rightarrow> nat option" where
  "array_index k =
     (if k \<noteq> [] \<and> list_all is_digit k \<and> (k = ''0'' \<or> hd k \<noteq> CHR ''0'')
         \<and> digits_val k < 4294967295
      then Some (digits_val k) else None)"

text \<open>
  \<open>CreateDataProperty\<close>: the property \<open>k\<close> is given the value \<open>v\<close>, at its place when it
  exists, at the place the order above gives it when it is new. This is how
  \<open>JSON.parse\<close> builds an object.
\<close>

fun obj_define :: "string \<Rightarrow> 'a \<Rightarrow> (string \<times> 'a) list \<Rightarrow> (string \<times> 'a) list" where
  "obj_define k v [] = [(k, v)]"
| "obj_define k v ((k', v') # m) =
     (if k = k' then (k, v) # m
      else
        case array_index k of
          None \<Rightarrow> (k', v') # obj_define k v m
        | Some i \<Rightarrow>
            (case array_index k' of
               None \<Rightarrow> (k, v) # (k', v') # m
             | Some i' \<Rightarrow> if i < i' then (k, v) # (k', v') # m else (k', v') # obj_define k v m))"

text \<open>
  \<open>obj[k] = v\<close> on an object made by \<open>{}\<close> and filled by such assignments only. The key
  \<open>__proto__\<close> names the accessor of \<open>Object.prototype\<close>: the assignment sets the
  prototype (when \<open>v\<close> is an object or \<open>null\<close>) or does nothing, and the object gets no
  own property. The prototype is not kept: such an object is only read through
  \<open>Object.keys\<close> and \<open>Object.entries\<close>, which list own properties.
\<close>

definition obj_set :: "string \<Rightarrow> 'a \<Rightarrow> (string \<times> 'a) list \<Rightarrow> (string \<times> 'a) list" where
  "obj_set k v m = (if k = ''__proto__'' then m else obj_define k v m)"

subsection \<open>\<open>JSON.stringify\<close>\<close>

text \<open>
  Modelled from the spec: \<open>JSON.stringify\<close> and \<open>JSON.parse\<close> belong to the JavaScript
  runtime, not to the sources. Section 4.E fixes the text of a value as its JSON; the
  functions below follow ECMA-404 and the ECMAScript definition of the two functions, on
  the values of this embedding and without indentation.
\<close>

definition hex_digit :: "nat \<Rightarrow> char" where
  "hex_digit d = ''0123456789abcdef'' ! d"

text \<open>\<open>QuoteJSONString\<close> on one code unit.\<close>

definition json_escape :: "char \<Rightarrow> string" where
  "json_escape c =
     (if c = CHR 0x22 then [CHR 0x5C, CHR 0x22]
      else if c = CHR 0x5C then [CHR 0x5C, CHR 0x5C]
      else if c = CHR 0x08 then [CHR 0x5C, CHR ''b'']
      else if c = CHR 0x09 then [CHR 0x5C, CHR ''t'']
      else if c = CHR 0x0A then [CHR 0x5C, CHR ''n'']
      else if c = CHR 0x0C then [CHR 0x5C, CHR ''f'']
      else if c = CHR 0x0D then [CHR 0x5C, CHR ''r'']
      else if (of_char c :: nat) < 32 then
        [CHR 0x5C, CHR ''u'', CHR ''0'', CHR ''0'', hex_digit (of_char c div 16),
         hex_digit (of_char c mod 16)]
      else [c])"

definition json_quote :: "string \<Rightarrow> string" where
  "json_quote s = CHR 0x22 # concat (map json_escape s) @ [CHR 0x22]"

text \<open>\<open>Array.prototype.join\<close> on strings.\<close>

fun join :: "string \<Rightarrow> string list \<Rightarrow> string" where
  "join sep [] = []"
| "join sep [x] = x"
| "join sep (x # y # ys) = x @ sep @ join sep (y # ys)"

text \<open>
  A byte string is a \<open>Buffer\<close>, whose \<open>toJSON\<close> gives the object
  \<open>{type: "Buffer", data: [...]}\<close>; this is what \<open>JSON.stringify\<close> serializes.
\<close>

fun json_stringify :: "jsval \<Rightarrow> string" where
  "json_stringify VNil = ''null''"
| "json_stringify (VBool b) = (if b then ''true'' else ''false'')"
| "json_stringify (VNum n) = show_int n"
| "json_stringify (VStr s) = json_quote s"
| "json_stringify (VBytes bs) =
     ''{'' @ json_quote ''type'' @ '':'' @ json_quote ''Buffer'' @ '','' @ json_quote ''data'' @ '':''
       @ ''['' @ join '','' (map (\<lambda>b. show_int (int b)) bs) @ '']'' @ ''}''"
| "json_stringify (VSeq vs) = ''['' @ join '','' (map json_stringify vs) @ '']''"
| "json_stringify (VMap m) =
     ''{'' @ join '','' (map (\<lambda>kv. json_quote (fst kv) @ '':'' @ json_stringify (snd kv)) m) @ ''}''"

subsection \<open>\<open>JSON.parse\<close>\<close>

text \<open>
  The outcome of reading a piece of JSON text: a syntax error, or the value read, a flag
  and the text left. The flag is false when the text read leaves this embedding: it
  holds a number whose exact value is no safe integer (it needs rounding), a negative zero,
  or a \<open>\u\<close> escape above 255. The value then only keeps the place, and reading goes on,
  so that a syntax error behind it is still found.
\<close>

datatype 'a presult = POk 'a bool string | PErr

fun and_ok :: "bool \<Rightarrow> 'a presult \<Rightarrow> 'a presult" where
  "and_ok b (POk v ok r) = POk v (b \<and> ok) r"
| "and_ok b PErr = PErr"

definition json_ws :: "string \<Rightarrow> string" where
  "json_ws s = dropWhile (\<lambda>c. c \<in> set [CHR 0x20, CHR 0x09, CHR 0x0A, CHR 0x0D]) s"

definition hex_val :: "char \<Rightarrow> nat option" where
  "hex_val c =
     (if is_digit c then Some (digit_val c)
      else if c \<in> set ''abcdef'' then Some (of_char c - 87)
      else if c \<in> set ''ABCDEF'' then Some (of_char c - 55)
      else None)"

definition hex4 :: "char \<Rightarrow> char \<Rightarrow> char \<Rightarrow> char \<Rightarrow> nat option" where
  "hex4 a b c d =
     (case (hex_val a, hex_val b, hex_val c, hex_val d) of
        (Some x, Some y, Some z, Some w) \<Rightarrow> Some (((x * 16 + y) * 16 + z) * 16 + w)
      | _ \<Rightarrow> None)"

definition unescape :: "char \<Rightarrow> char option" where
  "unescape e =
     (if e = CHR 0x22 then Some (CHR 0x22)
      else if e = CHR 0x5C then Some (CHR 0x5C)
      else if e = CHR ''/'' then Some (CHR ''/'')
      else if e = CHR ''b'' then Some (CHR 0x08)
      else if e = CHR ''f'' then Some (CHR 0x0C)
      else if e = CHR ''n'' then Some (CHR 0x0A)
      else if e = CHR ''r'' then Some (CHR 0x0D)
      else if e = CHR ''t'' then Some (CHR 0x09)
      else None)"

text \<open>The characters of a string literal, read from behind its opening quote.\<close>

fun parse_string :: "string \<Rightarrow> string presult" where
  "parse_string [] = PErr"
| "parse_string (c # cs) =
     (if c = CHR 0x22 then POk [] True cs
      else if c = CHR 0x5C then
        (case cs of
           [] \<Rightarrow> PErr
         | e # cs1 \<Rightarrow>
             if e = CHR ''u'' then
               (case cs1 of
                  h1 # h2 # h3 # h4 # cs2 \<Rightarrow>
                    (case hex4 h1 h2 h3 h4 of
                       None \<Rightarrow> PErr
                     | Some n \<Rightarrow>
                         (case parse_string cs2 of
                            POk s ok r \<Rightarrow> POk (char_of n # s) (n < 256 \<and> ok) r
                          | PErr \<Rightarrow> PErr))
                | _ \<Rightarrow> PErr)
             else
               (case unescape e of
                  None \<Rightarrow> PErr
                | Some u \<Rightarrow>
                    (case parse_string cs1 of
                       POk s ok r \<Rightarrow> POk (u # s) ok r
                     | PErr \<Rightarrow> PErr)))
      else if (of_char c :: nat) < 32 then PErr
      else
        (case parse_string cs of
           POk s ok r \<Rightarrow> POk (c # s) ok r
         | PErr \<Rightarrow> PErr))"

text \<open>The integer part of a number literal: \<open>0 | [1-9][0-9]*\<close>.\<close>

definition int_part :: "string \<Rightarrow> string" where
  "int_part r = (if r \<noteq> [] \<and> hd r = CHR ''0'' then ''0'' else takeWhile is_digit r)"

text \<open>
  The fraction of a number literal, if the text starts with one: its digits and the text
  behind it. \<open>None\<close>: a point with no digit behind it.
\<close>

definition scan_frac :: "string \<Rightarrow> (string \<times> string) option" where
  "scan_frac r =
     (if r \<noteq> [] \<and> hd r = CHR ''.'' then
        (if takeWhile is_digit (tl r) = [] then None
         else Some (takeWhile is_digit (tl r), dropWhile is_digit (tl r)))
      else Some ([], r))"

text \<open>
  The exponent of a number literal, if the text starts with one: its value and the text
  behind it. \<open>None\<close>: an \<open>e\<close> with no digit behind it and its sign.
\<close>

definition scan_exp :: "string \<Rightarrow> (int \<times> string) option" where
  "scan_exp r =
     (if r \<noteq> [] \<and> hd r \<in> set ''eE'' then
        (let e = tl r;
             e1 = (if e \<noteq> [] \<and> hd e \<in> set ''+-'' then tl e else e);
             n = int (digits_val (takeWhile is_digit e1))
         in if takeWhile is_digit e1 = [] then None
            else Some (if e \<noteq> [] \<and> hd e = CHR ''-'' then - n else n, dropWhile is_digit e1))
      else Some (0, r))"

text \<open>The number \<open>m\<close> times \<open>10\<^sup>e\<close>, when it is an integer.\<close>

definition exact_int :: "nat \<Rightarrow> int \<Rightarrow> int option" where
  "exact_int m e =
     (if 0 \<le> e then Some (int m * 10 ^ nat e)
      else if m mod 10 ^ nat (- e) = 0 then Some (int (m div 10 ^ nat (- e)))
      else None)"

text \<open>
  The number with the digits \<open>ds\<close> (of its integer part and its fraction, \<open>frac\<close> many of
  them in the fraction), the exponent \<open>e\<close> and the sign \<open>neg\<close>: a number of this
  embedding when its exact value is a safe integer and no negative zero. A JavaScript
  number holds a safe integer exactly, so no rounding takes place then.
\<close>

definition decimal_value :: "bool \<Rightarrow> string \<Rightarrow> nat \<Rightarrow> int \<Rightarrow> int option" where
  "decimal_value neg ds frac e =
     (case exact_int (digits_val ds) (e - int frac) of
        None \<Rightarrow> None
      | Some n \<Rightarrow> if (neg \<and> n = 0) \<or> \<not> safe_int n then None else Some (if neg then - n else n))"

text \<open>A number literal: an optional minus, the integer part, a fraction, an exponent.\<close>

definition parse_number :: "string \<Rightarrow> jsval presult" where
  "parse_number input =
     (let neg = (input \<noteq> [] \<and> hd input = CHR ''-'');
          r = (if neg then tl input else input);
          ds = int_part r
      in if ds = [] then PErr
         else
           case scan_frac (drop (length ds) r) of
             None \<Rightarrow> PErr
           | Some (fs, r1) \<Rightarrow>
               (case scan_exp r1 of
                  None \<Rightarrow> PErr
                | Some (e, rest) \<Rightarrow>
                    (case decimal_value neg (ds @ fs) (length fs) e of
                       None \<Rightarrow> POk VNil False rest
                     | Some n \<Rightarrow> POk (VNum n) True rest)))"

definition strip_prefix :: "string \<Rightarrow> string \<Rightarrow> string option" where
  "strip_prefix p s = (if take (length p) s = p then Some (drop (length p) s) else None)"

text \<open>
  The recursive descent on values, array elements and object members. Each function
  reads from text whose leading whitespace is gone. The tests \<open>length rest < length input\<close>
  always succeed (a value is at least one character long); they make the recursion
  visibly well-founded.
\<close>

function parse_value :: "string \<Rightarrow> jsval presult"
  and parse_elements :: "jsval list \<Rightarrow> string \<Rightarrow> jsval presult"
  and parse_members :: "(string \<times> jsval) list \<Rightarrow> string \<Rightarrow> jsval presult" where
  "parse_value input =
     (case input of
        [] \<Rightarrow> PErr
      | c # r \<Rightarrow>
          if c = CHR ''{'' then
            (case json_ws r of
               [] \<Rightarrow> PErr
             | c1 # r1 \<Rightarrow> if c1 = CHR ''}'' then POk (VMap []) True r1 else parse_members [] (c1 # r1))
          else if c = CHR ''['' then
            (case json_ws r of
               [] \<Rightarrow> PErr
             | c1 # r1 \<Rightarrow> if c1 = CHR '']'' then POk (VSeq []) True r1 else parse_elements [] (c1 # r1))
          else if c = CHR 0x22 then
            (case parse_string r of
               POk s ok r1 \<Rightarrow> POk (VStr s) ok r1
             | PErr \<Rightarrow> PErr)
          else if c = CHR ''t'' then
            (case strip_prefix ''true'' input of None \<Rightarrow> PErr | Some r1 \<Rightarrow> POk (VBool True) True r1)
          else if c = CHR ''f'' then
            (case strip_prefix ''false'' input of None \<Rightarrow> PErr | Some r1 \<Rightarrow> POk (VBool False) True r1)
          else if c = CHR ''n'' then
            (case strip_prefix ''null'' input of None \<Rightarrow> PErr | Some r1 \<Rightarrow> POk VNil True r1)
          else parse_number input)"
| "parse_elements acc input =
     (case parse_value input of
        PErr \<Rightarrow> PErr
      | POk v ok rest \<Rightarrow>
          if length rest < length input then
            (case json_ws rest of
               [] \<Rightarrow> PErr
             | c # r \<Rightarrow>
                 if c = CHR '','' then and_ok ok (parse_elements (acc @ [v]) (json_ws r))
                 else if c = CHR '']'' then POk (VSeq (acc @ [v])) ok r
                 else PErr)
          else PErr)"
| "parse_members acc input =
     (case input of
        [] \<Rightarrow> PErr
      | q # r \<Rightarrow>
          if q = CHR 0x22 then
            (case parse_string r of
               PErr \<Rightarrow> PErr
             | POk k kok r1 \<Rightarrow>
                 if length r1 < length input then
                   (case json_ws r1 of
                      [] \<Rightarrow> PErr
                    | c # r2 \<Rightarrow>
                        if c = CHR '':'' then
                          (case parse_value (json_ws r2) of
                             PErr \<Rightarrow> PErr
                           | POk v ok rest \<Rightarrow>
                               if length rest < length input then
                                 (case json_ws rest of
                                    [] \<Rightarrow> PErr
                                  | c3 # r3 \<Rightarrow>
                                      if c3 = CHR '','' then
                                        and_ok (kok \<and> ok) (parse_members (obj_define k v acc) (json_ws r3))
                                      else if c3 = CHR ''}'' then
                                        POk (VMap (obj_define k v acc)) (kok \<and> ok) r3
                                      else PErr)
                               else PErr)
                        else PErr)
                 else PErr)
          else PErr)"
  by pat_completeness auto
termination
proof (relation "measures [\<lambda>x. case x of Inl i \<Rightarrow> length i
                               | Inr (Inl (a, i)) \<Rightarrow> length i
                               | Inr (Inr (a, i)) \<Rightarrow> length i,
                          \<lambda>x. case x of Inl i \<Rightarrow> 0 | Inr y \<Rightarrow> 1]", goal_cases)
  case 1
  then show ?case by simp
next
  case (2 input c r c1 r1)
  have "length (json_ws r) \<le> length r" by (simp add: json_ws_def length_dropWhile_le)
  with 2 show ?case by simp
next
  case (3 input c r c1 r1)
  have "length (json_ws r) \<le> length r" by (simp add: json_ws_def length_dropWhile_le)
  with 3 show ?case by simp
next
  case (4 acc input)
  then show ?case by simp
next
  case (5 acc input v ok rest c r)
  have "length (json_ws r) \<le> length r" "length (json_ws rest) \<le> length rest"
    by (simp_all add: json_ws_def length_dropWhile_le)
  with 5 show ?case by simp
next
  case (6 acc input q r k kok r1 c r2)
  have "length (json_ws r2) \<le> length r2" "length (json_ws r1) \<le> length r1"
    by (simp_all add: json_ws_def length_dropWhile_le)
  with 6 show ?case by simp
next
  case (7 acc input q r k kok r1 c r2 v ok rest c3 r3)
  have "length (json_ws r3) \<le> length r3" "length (json_ws rest) \<le> length rest"
    by (simp_all add: json_ws_def length_dropWhile_le)
  with 7 show ?case by simp
qed

declare parse_value.simps [simp del] parse_elements.simps [simp del] parse_members.simps [simp del]

text \<open>
  \<open>JSON.parse(input)\<close>: one value, with whitespace allowed around it and nothing else.
  \<open>JUnsupported\<close>: the text is JSON and its value lies outside this embedding.
\<close>

datatype json_result = JValue jsval | JSyntaxError | JUnsupported

definition json_parse :: "string \<Rightarrow> json_result" where
  "json_parse input =
     (case parse_value (json_ws input) of
        PErr \<Rightarrow> JSyntaxError
      | POk v ok rest \<Rightarrow>
          if json_ws rest \<noteq> [] then JSyntaxError
          else if ok then JValue v
          else JUnsupported)"

text \<open>
  The configuration values used below, in bytes and as numbers (the source
  reads them from a YAML file through \<open>convertSize\<close>): \<open>meids.count\<close>, \<open>meids.size\<close>,
  \<open>memory.monitor\<close>, \<open>memory.max_size\<close> and \<open>persistent.backup_size_limit\<close>.
\<close>

record config =
  meids_count :: int
  meids_entry_size :: int
  memory_monitor_on :: bool
  memory_max_size :: int
  backup_size_limit :: int

text \<open>
  The state \<open>start\<close> leaves behind on an empty database directory: \<open>initMeidsAndKeys\<close>
  sets \<open>#meids_size\<close> (no shard file exists yet), the worker is created with the
  database path and the file permission only, \<open>initMemoryMonitor\<close> runs when
  \<open>memory.monitor\<close> is set. \<open>meids.size\<close> is read for the start-up report and stored
  nowhere.
\<close>

definition start :: "config \<Rightarrow> core" where
  "start cfg =
     \<lparr>memory_monitor = memory_monitor_on cfg,
      max_memory = (if memory_monitor_on cfg then Some (memory_max_size cfg) else None),
      key_tbl = Map.empty, key_proto = None, value_tbl = Map.empty, trash = [], cache = Map.empty,
      current_meid = - 1,
      meids_size = (let c = max (meids_count cfg) (- 1) in if c \<le> 0 then max 0 1 else c),
      aol_worker = Some []\<rparr>"

subsection \<open>The values of the text codec\<close>

text \<open>
  An association list is an object when it lists its properties in the order an object
  has them: defining them one by one, in the order of the list, on an empty object
  gives the list back.
\<close>

definition js_object :: "(string \<times> 'a) list \<Rightarrow> bool" where
  "js_object m = (foldl (\<lambda>obj kv. obj_define (fst kv) (snd kv) obj) [] m = m)"





section \<open>The append-only log: \<open>SnowflakeAol\<close>\<close>

subsection \<open>The text of a value\<close>

definition stringify :: "jsval \<Rightarrow> string" where
  "stringify input =
     (case input of
        VSeq vs \<Rightarrow> json_stringify input
      | VStr s \<Rightarrow> json_stringify input
      | VMap m \<Rightarrow> json_stringify input
      | VBytes bs \<Rightarrow> json_stringify input
      | VNil \<Rightarrow> ''N''
      | VBool b \<Rightarrow> (if b then ''T'' else ''F'')
      | VNum n \<Rightarrow> show_int n)"

text \<open>\<open>String.prototype.trim\<close>.\<close>

definition js_trim :: "string \<Rightarrow> string" where
  "js_trim s = rev (dropWhile is_white (rev (dropWhile is_white s)))"

text \<open>
  \<open>Number(input)\<close> on a string, as \<open>isNaN(input)\<close> and \<open>Number(input)\<close> use it: \<open>NaN\<close>, an
  integer of this embedding, or \<open>OtherNum\<close>: a number outside it (one whose exact value
  is no safe integer, an infinity, a negative zero).
\<close>

datatype number_result = NaN | IntNum int | OtherNum

definition radix_val :: "nat \<Rightarrow> string \<Rightarrow> nat option" where
  "radix_val b ds =
     (if ds \<noteq> [] \<and> list_all (\<lambda>c. case hex_val c of None \<Rightarrow> False | Some d \<Rightarrow> d < b) ds
      then Some (foldl (\<lambda>a c. b * a + (case hex_val c of None \<Rightarrow> 0 | Some d \<Rightarrow> d)) 0 ds)
      else None)"

text \<open>
  The grammar \<open>StrDecimalLiteral\<close> of string-to-number conversion, on text with no
  white space around it: a sign, then \<open>Infinity\<close> or digits with a point among them or
  not, of which at least one is a digit, then an exponent.
\<close>

definition str_decimal :: "string \<Rightarrow> number_result" where
  "str_decimal t =
     (let neg = (t \<noteq> [] \<and> hd t = CHR ''-'');
          u = (if t \<noteq> [] \<and> hd t \<in> set ''+-'' then tl t else t);
          d1 = takeWhile is_digit u;
          a = dropWhile is_digit u;
          dot = (a \<noteq> [] \<and> hd a = CHR ''.'');
          d2 = (if dot then takeWhile is_digit (tl a) else []);
          b = (if dot then dropWhile is_digit (tl a) else a)
      in if u = ''Infinity'' then OtherNum
         else if d1 = [] \<and> d2 = [] then NaN
         else
           case scan_exp b of
             None \<Rightarrow> NaN
           | Some (e, rest) \<Rightarrow>
               if rest \<noteq> [] then NaN
               else (case decimal_value neg (d1 @ d2) (length d2) e of
                       None \<Rightarrow> OtherNum
                     | Some n \<Rightarrow> IntNum n))"

text \<open>
  The text is trimmed; empty text is 0; \<open>0x\<close>, \<open>0b\<close> and \<open>0o\<close> start a literal of
  another radix, which takes no sign.
\<close>

definition to_number :: "string \<Rightarrow> number_result" where
  "to_number s =
     (let t = js_trim s in
      if t = [] then IntNum 0
      else
        case (case t of
                c0 # x # ds \<Rightarrow>
                  if c0 \<noteq> CHR ''0'' then None
                  else if x \<in> set ''xX'' then Some (16, ds)
                  else if x \<in> set ''bB'' then Some (2, ds)
                  else if x \<in> set ''oO'' then Some (8, ds)
                  else None
              | _ \<Rightarrow> None) of
          Some (b, ds) \<Rightarrow>
            (case radix_val b ds of
               None \<Rightarrow> NaN
             | Some n \<Rightarrow> if safe_int (int n) then IntNum (int n) else OtherNum)
        | None \<Rightarrow> str_decimal t)"

text \<open>
  \<open>parse\<close>. It never throws. \<open>None\<close> says that this embedding does not hold its result:
  the text is, or holds, a number outside the embedding (see \<open>presult\<close> and \<open>OtherNum\<close>) or
  a string with a code unit above 255.
\<close>

definition parse :: "string \<Rightarrow> jsval option" where
  "parse input =
     (if input = ''N'' \<or> input = ''n'' then Some VNil
      else if input = ''T'' \<or> input = ''t'' then Some (VBool True)
      else if input = ''F'' \<or> input = ''f'' then Some (VBool False)
      else
        case json_parse input of
          JValue v \<Rightarrow> Some v
        | JUnsupported \<Rightarrow> None
        | JSyntaxError \<Rightarrow>
            (case to_number input of
               NaN \<Rightarrow> Some (VStr input)
             | IntNum n \<Rightarrow> Some (VNum n)
             | OtherNum \<Rightarrow> None))"

subsection \<open>Instructions\<close>

text \<open>\<open>valueToKeysMap\<close> of \<open>encodeSets\<close>: a \<open>Map\<close> keeps its keys in insertion order.\<close>

fun map_push :: "string \<Rightarrow> string \<Rightarrow> (string \<times> string list) list \<Rightarrow> (string \<times> string list) list" where
  "map_push sv k [] = [(sv, [k])]"
| "map_push sv k ((sv', ks) # g) =
     (if sv = sv' then (sv', ks @ [k]) # g else (sv', ks) # map_push sv k g)"

definition encodeSets :: "(string \<times> jsval) list \<Rightarrow> string" where
  "encodeSets data =
     (let valueToKeysMap = foldl (\<lambda>g kv. map_push (stringify (snd kv)) (fst kv) g) [] data;
          encoded = map (\<lambda>g. join ''<'' (snd g) @ ''<'' @ fst g) valueToKeysMap
      in join [CHR 0x0A] encoded)"

definition encodeRemoval :: "string list \<Rightarrow> string" where
  "encodeRemoval keys = join [CHR 0x0A] (map (\<lambda>k. CHR ''#'' # k) keys)"

text \<open>\<open>String.prototype.split\<close> on a separator of one character.\<close>

fun split_on :: "char \<Rightarrow> string \<Rightarrow> string list" where
  "split_on c [] = [[]]"
| "split_on c (x # xs) =
     (if x = c then [] # split_on c xs
      else case split_on c xs of [] \<Rightarrow> [[x]] | p # ps \<Rightarrow> (x # p) # ps)"

text \<open>
  The array \<open>parseInstructions\<close> returns alternates an action and its data; an
  instruction is one such pair. The values are whatever the value parser gives.
\<close>

datatype 'v instruction = ISet "(string \<times> 'v) list" | IRemove "string list"

text \<open>
  The body of \<open>lines.forEach\<close>: the instructions one trimmed line adds. The value parser
  \<open>SnowflakeAol.parse\<close> is the parameter \<open>p\<close>; it is called once, on the text behind the
  last \<open><\<close>.
\<close>

definition line_instructions :: "(string \<Rightarrow> 'v) \<Rightarrow> string \<Rightarrow> 'v instruction list" where
  "line_instructions p line =
     (if line = [] \<or> hd line = CHR '';'' then []
      else if hd line = CHR ''#'' then
        [IRemove (map (drop 1) (filter (\<lambda>k. k \<noteq> []) (split_on (CHR '' '') line)))]
      else
        let parts = split_on (CHR ''<'') line;
            v = p (last parts)
        in [ISet (foldl (\<lambda>currentSet k. obj_set k v currentSet) [] (butlast parts))])"

definition parseInstructions :: "(string \<Rightarrow> 'v) \<Rightarrow> string \<Rightarrow> 'v instruction list" where
  "parseInstructions p input =
     (let lines = filter (\<lambda>line. line \<noteq> []) (map js_trim (split_on (CHR 0x0A) input))
      in concat (map (line_instructions p) lines))"

subsection \<open>The writer\<close>

text \<open>
  The fields of a \<open>SnowflakeAol\<close> that its methods read or write, and the files of the
  database directory by name (\<open>disk\<close>). \<open>queue\<close> is an ordinary object.
  \<open>file_descriptor\<close> is the name the file was opened under, \<open>None\<close> while no file is open.
\<close>

record aol =
  queue :: "(string \<times> jsval) list"
  current_file_name :: "string option"
  file_descriptor :: "string option"
  instructions_changed :: bool
  disk :: "string \<rightharpoonup> string"

definition aol_new :: "(string \<rightharpoonup> string) \<Rightarrow> aol" where
  "aol_new files =
     \<lparr>queue = [], current_file_name = None, file_descriptor = None,
      instructions_changed = False, disk = files\<rparr>"

definition add :: "aol \<Rightarrow> string \<Rightarrow> jsval \<Rightarrow> aol" where
  "add a k v = a\<lparr>queue := obj_set k v (queue a), instructions_changed := True\<rparr>"

text \<open>\<open>rotate\<close> (here \<open>rotate_file\<close>).\<close>

definition rotate_file :: "aol \<Rightarrow> int \<Rightarrow> aol" where
  "rotate_file a date_now =
     (if current_file_name a = None
      then a\<lparr>current_file_name := Some (show_int (date_now div 1000) @ ''.sfb'')\<rparr>
      else a)"

text \<open>
  \<open>#make\<close> (here \<open>make_file\<close>): the file is opened for appending, which creates it when it is missing.
  Without a file name \<open>path.join\<close> throws and the \<open>catch\<close> leaves the descriptor unset.
\<close>

definition make_file :: "aol \<Rightarrow> aol" where
  "make_file a =
     (case current_file_name a of
        None \<Rightarrow> a
      | Some n \<Rightarrow>
          a\<lparr>file_descriptor := Some n,
            disk := (case disk a n of None \<Rightarrow> (disk a)(n \<mapsto> []) | Some c \<Rightarrow> disk a)\<rparr>)"

text \<open>The callback that \<open>#jobs\<close> runs every \<open>#backup_interval\<close> milliseconds.\<close>

definition jobs_tick :: "aol \<Rightarrow> aol" where
  "jobs_tick a =
     (if \<not> instructions_changed a then a
      else if queue a = [] then a
      else
        case file_descriptor a of
          None \<Rightarrow> a\<lparr>queue := []\<rparr>
        | Some n \<Rightarrow>
            a\<lparr>queue := [],
              disk := (disk a)(n \<mapsto> (case disk a n of None \<Rightarrow> [] | Some c \<Rightarrow> c)
                                     @ encodeSets (queue a) @ [CHR 0x0A]),
              instructions_changed := False\<rparr>)"

text \<open>\<open>worker\<close>: \<open>rotate\<close>, then \<open>#make\<close>; the interval is installed when the file is open.\<close>

definition worker :: "aol \<Rightarrow> int \<Rightarrow> aol" where
  "worker a date_now = make_file (rotate_file a date_now)"

text \<open>
  The message handler of \<open>worker_aol.js\<close>: the state of the log and whether the answer is
  \<open>send_success\<close>.
\<close>

definition on_message :: "aol \<Rightarrow> request \<Rightarrow> aol \<times> bool" where
  "on_message a data =
     (if action data = ''set'' then
        (if req_key data = [] then (a, False)
         else (add a (req_key data) (req_value data), True))
      else (a, False))"

subsection \<open>Replay\<close>

text \<open>
  \<open>restore_backup\<close> of \<open>SnowflakeCoreHelper.loadDatabase\<close> on the content of one backup
  file: sets go through \<open>setUnsafe\<close> on the sanitized key, removes through \<open>remove\<close>.
  The instructions are those \<open>parseInstructions\<close> gives with \<open>parse\<close>; the outcome is
  \<open>None\<close> when one of the values to set is (see \<open>parse\<close>).
\<close>

definition known_set :: "(string \<times> jsval option) list \<Rightarrow> (string \<times> jsval) list option" where
  "known_set data = those (map (\<lambda>kv. map_option (\<lambda>v. (fst kv, v)) (snd kv)) data)"

definition apply_instruction ::
  "(string \<Rightarrow> string) \<Rightarrow> core \<Rightarrow> jsval option instruction \<Rightarrow> core option" where
  "apply_instruction sha s i =
     (case i of
        ISet data \<Rightarrow>
          map_option
            (foldl (\<lambda>s1 kv. snd (setUnsafe sha s1 (sanitizeKey_str (fst kv) False) (snd kv))) s)
            (known_set data)
      | IRemove data \<Rightarrow> Some (foldl (\<lambda>s1 k. snd (remove_entry sha s1 k)) s data))"

definition restore_backup :: "(string \<Rightarrow> string) \<Rightarrow> core \<Rightarrow> string \<Rightarrow> core option" where
  "restore_backup sha s content =
     foldl (\<lambda>so i. case so of None \<Rightarrow> None | Some s1 \<Rightarrow> apply_instruction sha s1 i) (Some s)
       (parseInstructions parse content)"

section \<open>The free list query: \<open>SnowflakeRangeQuery\<close>\<close>

text \<open>
  An element of the array a \<open>SnowflakeRangeQuery\<close> works on: a free slot whose three
  fields are numbers.
\<close>

record free_slot =
  size_t :: int
  position_t :: int
  length_t :: int

text \<open>\<open>element[field_name]\<close> on a free slot; \<open>None\<close> is \<open>undefined\<close>.\<close>

definition field :: "free_slot \<Rightarrow> string \<Rightarrow> int option" where
  "field e f =
     (if f = ''size'' then Some (size_t e)
      else if f = ''position'' then Some (position_t e)
      else if f = ''length'' then Some (length_t e)
      else None)"

text \<open>
  The loop of \<open>binarySearch\<close>. Reading \<open>array[mid].size\<close> outside the array would throw,
  which is the \<open>TypeError\<close> branch.
\<close>

function binarySearch_loop ::
  "free_slot list \<Rightarrow> int \<Rightarrow> int \<Rightarrow> int \<Rightarrow> free_slot option \<Rightarrow> js_error + free_slot option" where
  "binarySearch_loop array target left right result =
     (if left \<le> right then
        let mid = (left + right) div 2 in
        if 0 \<le> mid \<and> mid < int (length array) then
          if size_t (array ! nat mid) \<ge> target
          then binarySearch_loop array target left (mid - 1) (Some (array ! nat mid))
          else binarySearch_loop array target (mid + 1) right result
        else Inl TypeError
      else Inr result)"
  by pat_completeness auto
termination
  by (relation "measure (\<lambda>(array, target, left, right, result). nat (right - left + 1))") auto

definition binarySearch :: "free_slot list \<Rightarrow> int \<Rightarrow> js_error + free_slot option" where
  "binarySearch array target = binarySearch_loop array target 0 (int (length array) - 1) None"

text \<open>\<open>sortBy\<close>: a stable sort on \<open>a[field_name] ?? 0\<close>.\<close>

definition sortBy :: "free_slot list \<Rightarrow> string \<Rightarrow> free_slot list" where
  "sortBy array field_name =
     sort_key (\<lambda>e. case field e field_name of None \<Rightarrow> 0 | Some v \<Rightarrow> v) array"

text \<open>
  \<open>findSmallestFit\<close>. On an empty array the last element is \<open>undefined\<close> and reading
  its field throws.
\<close>

definition findSmallestFit :: "free_slot list \<Rightarrow> string \<Rightarrow> int \<Rightarrow> js_error + free_slot option" where
  "findSmallestFit array field_name fit =
     (if array = [] then Inl TypeError
      else
        case field (last array) field_name of
          None \<Rightarrow> Inr None
        | Some largestSize \<Rightarrow>
            if largestSize \<ge> fit then
              (case binarySearch array fit of
                 Inl e \<Rightarrow> Inl e
               | Inr (Some smallestFit) \<Rightarrow> Inr (Some smallestFit)
               | Inr None \<Rightarrow> Inr None)
            else Inr None)"

subsection \<open>The loop invariant of \<open>binarySearch\<close>\<close>

text \<open>
  The state of the loop: everything left of \<open>l\<close> is too small, everything right of \<open>r\<close>
  fits, and \<open>res\<close> is the element right of \<open>r\<close>, if there is one. The result: the
  element at the boundary \<open>p\<close> between the two, if there is one.
\<close>

definition bs_inv :: "free_slot list \<Rightarrow> int \<Rightarrow> int \<Rightarrow> int \<Rightarrow> free_slot option \<Rightarrow> bool" where
  "bs_inv xs t l r res =
     (0 \<le> l \<and> l \<le> r + 1 \<and> r < int (length xs)
      \<and> (\<forall>i. 0 \<le> i \<and> i < l \<longrightarrow> size_t (xs ! nat i) < t)
      \<and> (\<forall>i. r < i \<and> i < int (length xs) \<longrightarrow> t \<le> size_t (xs ! nat i))
      \<and> res = (if r + 1 < int (length xs) then Some (xs ! nat (r + 1)) else None))"

definition bs_post :: "free_slot list \<Rightarrow> int \<Rightarrow> js_error + free_slot option \<Rightarrow> bool" where
  "bs_post xs t out =
     (\<exists>p. 0 \<le> p \<and> p \<le> int (length xs)
        \<and> (\<forall>i. 0 \<le> i \<and> i < p \<longrightarrow> size_t (xs ! nat i) < t)
        \<and> (\<forall>i. p \<le> i \<and> i < int (length xs) \<longrightarrow> t \<le> size_t (xs ! nat i))
        \<and> out = Inr (if p < int (length xs) then Some (xs ! nat p) else None))"

section \<open>The lockdown tracker of \<open>SnowflakeCLI\<close>\<close>

text \<open>
  An entry of \<open>#lockdown\<close>. A field that is missing reads as \<open>undefined\<close>, which both
  \<open>time && attempts\<close> and \<open>attempts || 0\<close> treat as they treat \<open>0\<close>; it is modelled as \<open>0\<close>.
\<close>

record lock_entry =
  time_l :: int
  attempts :: int

text \<open>
  The configuration of the tracker, the table \<open>#lockdown\<close> (an association list, in the
  order of \<open>Object.entries\<close>) and the content of the \<open>.lockdown\<close> file (\<open>None\<close>: no file).
\<close>

record cli =
  max_login_attempt :: int
  lockdown_mode :: string
  cooldown :: int
  lockdown :: "(string \<times> lock_entry) list"
  lockdown_file :: "(string \<times> lock_entry) list option"

text \<open>\<open>Snowflake.now\<close>, on the reading \<open>date_now\<close> of \<open>Date.now()\<close> in milliseconds.\<close>

definition now :: "bool \<Rightarrow> int \<Rightarrow> int" where
  "now micro_time date_now = (if micro_time then date_now else date_now div 1000)"

definition isLockedDown :: "cli \<Rightarrow> int \<Rightarrow> string \<Rightarrow> bool" where
  "isLockedDown c date_now s =
     (case map_of (lockdown c) s of
        None \<Rightarrow> False
      | Some e \<Rightarrow>
          if time_l e \<noteq> 0 \<and> attempts e \<noteq> 0 then
            now False date_now \<le> time_l e \<and> attempts e \<ge> max_login_attempt c
          else False)"

definition lockedDown :: "cli \<Rightarrow> int \<Rightarrow> string option \<Rightarrow> bool" where
  "lockedDown c date_now subject =
     (if max_login_attempt c \<le> 0 then False
      else if lockdown_mode c \<notin> set [''ip'', ''token''] then False
      else
        case subject of
          Some s \<Rightarrow> isLockedDown c date_now s
        | None \<Rightarrow> list_ex (\<lambda>kv. isLockedDown c date_now (fst kv)) (lockdown c))"

definition updateLockdown :: "cli \<Rightarrow> int \<Rightarrow> cli" where
  "updateLockdown c date_now =
     (if \<not> lockedDown c date_now None then c\<lparr>lockdown_file := None\<rparr>
      else c\<lparr>lockdown_file := Some (lockdown c)\<rparr>)"

text \<open>
  The handler of \<open>cli_server_login_attempt\<close> (its log line left out). \<open>remote\<close> is
  \<open>shell.socket.remoteAddress\<close>, which may be \<open>undefined\<close>.
\<close>

definition login_attempt :: "cli \<Rightarrow> int \<Rightarrow> string option \<Rightarrow> bool \<Rightarrow> string \<Rightarrow> string \<Rightarrow> cli" where
  "login_attempt c date_now remote success token cause =
     (if max_login_attempt c > 0 \<and> \<not> success then
        let subject = (if lockdown_mode c = ''ip'' then remote else Some token);
            c1 = (case subject of
                    None \<Rightarrow> c
                  | Some sub \<Rightarrow>
                      let e = (case map_of (lockdown c) sub of
                                 None \<Rightarrow> \<lparr>time_l = 0, attempts = 0\<rparr>
                               | Some e \<Rightarrow> e);
                          e1 = e\<lparr>time_l := now False date_now + cooldown c * 1000\<rparr>;
                          e2 = e1\<lparr>attempts := attempts e1 + 1\<rparr>
                      in c\<lparr>lockdown := AList.update sub e2 (lockdown c)\<rparr>)
        in if cause = ''lockdown'' then updateLockdown c1 date_now else c1
      else c)"

section \<open>Verification: key sanitization\<close>

lemma space_not_key_char: "is_space u \<Longrightarrow> \<not> is_key_char u"
  by (auto simp: is_space_def is_key_char_def)

lemma key_char_not_space: "is_key_char u \<Longrightarrow> \<not> is_space u"
  using space_not_key_char by blast

lemma underscore_key_char: "is_key_char 0x5F"
  by (simp add: is_key_char_def)

lemma strip_underscores_subset: "set (strip_underscores s) \<subseteq> set s"
proof -
  have "set (strip_underscores s) \<subseteq> set (dropWhile (\<lambda>u. u = 0x5F) s)"
    unfolding strip_underscores_def using set_dropWhileD by fastforce
  also have "\<dots> \<subseteq> set s"
    using set_dropWhileD by fastforce
  finally show ?thesis .
qed

lemma dropWhile_rev_dropWhile:
  "dropWhile P (rev (dropWhile P (rev (dropWhile P xs)))) = rev (dropWhile P (rev (dropWhile P xs)))"
proof (cases "dropWhile P xs")
  case Nil
  then show ?thesis by (simp del: dropWhile_eq_Nil_conv)
next
  case (Cons y ys)
  then have ny: "\<not> P y" by (metis hd_dropWhile list.distinct(1) list.sel(1))
  have "rev (dropWhile P xs) = rev ys @ [y]" using Cons by simp
  then have "dropWhile P (rev (dropWhile P xs)) = dropWhile P (rev ys) @ [y]"
    using ny by (simp add: dropWhile_append)
  then have "rev (dropWhile P (rev (dropWhile P xs))) = y # rev (dropWhile P (rev ys))"
    by simp
  then show ?thesis using ny by simp
qed

lemma strip_underscores_idem: "strip_underscores (strip_underscores s) = strip_underscores s"
  unfolding strip_underscores_def
  by (simp add: dropWhile_rev_dropWhile)

lemma strip_underscores_ends:
  "strip_underscores s = [] \<or>
   (hd (strip_underscores s) \<noteq> 0x5F \<and> last (strip_underscores s) \<noteq> 0x5F)"
proof (cases "strip_underscores s = []")
  case True
  then show ?thesis by simp
next
  case False
  let ?P = "\<lambda>u :: 16 word. u = 0x5F"
  let ?d = "dropWhile ?P (rev (dropWhile ?P s))"
  have d: "?d \<noteq> []" using False by (simp add: strip_underscores_def)
  then have "\<not> ?P (hd ?d)" by (rule hd_dropWhile)
  then have l: "last (strip_underscores s) \<noteq> 0x5F"
    using d by (simp add: strip_underscores_def last_rev)
  have e: "dropWhile ?P (strip_underscores s) = strip_underscores s"
    unfolding strip_underscores_def by (rule dropWhile_rev_dropWhile)
  then have "dropWhile ?P (strip_underscores s) \<noteq> []"
    using False by simp
  then have "\<not> ?P (hd (dropWhile ?P (strip_underscores s)))"
    by (rule hd_dropWhile)
  then have "hd (strip_underscores s) \<noteq> 0x5F"
    unfolding e .
  with l show ?thesis by simp
qed

text \<open>A run of one code unit, taken from the front of a list.\<close>

lemma takeWhile_eq_replicate: "takeWhile (\<lambda>u. u = c) xs = replicate (length (takeWhile (\<lambda>u. u = c) xs)) c"
  by (induction xs) simp_all

text \<open>What is stripped is a run of underscores at each end.\<close>

lemma strip_underscores_runs:
  "\<exists>n m. s = replicate n 0x5F @ strip_underscores s @ replicate m 0x5F"
proof -
  let ?P = "\<lambda>u :: 16 word. u = 0x5F"
  let ?d = "dropWhile ?P s"
  have "s = takeWhile ?P s @ ?d" by simp
  then have a: "s = replicate (length (takeWhile ?P s)) 0x5F @ ?d"
    using takeWhile_eq_replicate [of "0x5F" s] by simp
  have "rev ?d = takeWhile ?P (rev ?d) @ dropWhile ?P (rev ?d)" by simp
  then have "rev ?d = replicate (length (takeWhile ?P (rev ?d))) 0x5F @ dropWhile ?P (rev ?d)"
    using takeWhile_eq_replicate [of "0x5F" "rev ?d"] by simp
  then have "rev (rev ?d)
               = rev (replicate (length (takeWhile ?P (rev ?d))) 0x5F @ dropWhile ?P (rev ?d))"
    by simp
  then have b: "?d = strip_underscores s @ replicate (length (takeWhile ?P (rev ?d))) 0x5F"
    by (simp add: strip_underscores_def)
  from a b have "s = replicate (length (takeWhile ?P s)) 0x5F @ strip_underscores s
                       @ replicate (length (takeWhile ?P (rev ?d))) 0x5F"
    by simp
  then show ?thesis by blast
qed

lemma sanitize_fixed:
  assumes "\<forall>u\<in>set s. is_key_char u"
  shows "filter is_key_char (map (\<lambda>u. if is_space u then 0x5F else u) s) = s"
proof -
  have "map (\<lambda>u. if is_space u then 0x5F else u) s = s"
    using assms by (simp add: map_idI key_char_not_space)
  then show ?thesis using assms by simp
qed

lemma sanitizeKey_chars: "\<forall>u\<in>set (sanitizeKey x t). is_key_char u"
proof
  fix u
  assume u: "u \<in> set (sanitizeKey x t)"
  let ?k = "filter is_key_char (map (\<lambda>u. if is_space u then 0x5F else u) x)"
  have "sanitizeKey x t = (if t then strip_underscores ?k else ?k)"
    by (simp add: sanitizeKey_def)
  then have "set (sanitizeKey x t) \<subseteq> set ?k"
    using strip_underscores_subset [of ?k] by (cases t) simp_all
  with u have "u \<in> set ?k" by blast
  then show "is_key_char u" by simp
qed

lemma sanitizeKey_idem: "sanitizeKey (sanitizeKey x t) t = sanitizeKey x t"
proof -
  let ?y = "sanitizeKey x t"
  have fx: "filter is_key_char (map (\<lambda>u. if is_space u then 0x5F else u) ?y) = ?y"
    by (rule sanitize_fixed) (rule sanitizeKey_chars)
  have "sanitizeKey ?y t = (if t then strip_underscores ?y else ?y)"
    unfolding sanitizeKey_def [of ?y] Let_def fx ..
  also have "\<dots> = ?y"
    by (cases t) (simp_all add: sanitizeKey_def [of x] strip_underscores_idem)
  finally show ?thesis .
qed

text \<open>
  Without trimming, the output is the input read code unit by code unit: an underscore
  for a whitespace, the code unit itself when the class of key characters holds it,
  nothing otherwise.
\<close>

lemma sanitizeKey_units:
  "sanitizeKey x False
     = concat (map (\<lambda>u. if is_space u then [0x5F] else if is_key_char u then [u] else []) x)"
proof -
  have "filter is_key_char (map (\<lambda>u. if is_space u then 0x5F else u) x)
          = concat (map (\<lambda>u. if is_space u then [0x5F] else if is_key_char u then [u] else []) x)"
    by (induction x) (simp_all add: underscore_key_char)
  then show ?thesis by (simp add: sanitizeKey_def)
qed

text \<open>With trimming, the output is that one less the underscores at its two ends.\<close>

lemma sanitizeKey_trim:
  "\<exists>n m. sanitizeKey x False = replicate n 0x5F @ sanitizeKey x True @ replicate m 0x5F"
  using strip_underscores_runs [of "sanitizeKey x False"] by (simp add: sanitizeKey_def)

text \<open>
  Claim C9. For every string \<open>x\<close>, \<open>sanitizeKey\<close> is idempotent and its output contains
  only characters of \<open>[A-Za-z0-9_-]\<close>. Without trimming the output is the input with
  every whitespace character replaced by an underscore and every other character outside
  \<open>[A-Za-z0-9_-]\<close> left out. With \<open>trim = true\<close> the output is that string less a run of
  underscores at its start and one at its end, and it neither starts nor ends with an
  underscore.
\<close>

theorem sanitizeKey_sound:
  "sanitizeKey (sanitizeKey x t) t = sanitizeKey x t
   \<and> (\<forall>u\<in>set (sanitizeKey x t). is_key_char u)
   \<and> sanitizeKey x False
       = concat (map (\<lambda>u. if is_space u then [0x5F] else if is_key_char u then [u] else []) x)
   \<and> (\<exists>n m. sanitizeKey x False = replicate n 0x5F @ sanitizeKey x True @ replicate m 0x5F)
   \<and> (sanitizeKey x True = [] \<or>
        (hd (sanitizeKey x True) \<noteq> 0x5F \<and> last (sanitizeKey x True) \<noteq> 0x5F))"
proof (intro conjI)
  show "sanitizeKey (sanitizeKey x t) t = sanitizeKey x t" by (rule sanitizeKey_idem)
  show "\<forall>u\<in>set (sanitizeKey x t). is_key_char u" by (rule sanitizeKey_chars)
  show "sanitizeKey x False
          = concat (map (\<lambda>u. if is_space u then [0x5F] else if is_key_char u then [u] else []) x)"
    by (rule sanitizeKey_units)
  show "\<exists>n m. sanitizeKey x False = replicate n 0x5F @ sanitizeKey x True @ replicate m 0x5F"
    by (rule sanitizeKey_trim)
  show "sanitizeKey x True = [] \<or>
        (hd (sanitizeKey x True) \<noteq> 0x5F \<and> last (sanitizeKey x True) \<noteq> 0x5F)"
    using strip_underscores_ends by (simp add: sanitizeKey_def Let_def)
qed

text \<open>
  The input here is a space, \<open>my\<close>, an ideographic space (U+3000), \<open>k\<close>, an \<open>e\<close> with an acute accent (U+00E9),
  \<open>ey_\<close> and a line feed.
\<close>

theorem sanitizeKey_sound_witness:
  "sanitizeKey [0x20, 0x6D, 0x79, 0x3000, 0x6B, 0xE9, 0x65, 0x79, 0x5F, 0x0A] False
     = [0x5F, 0x6D, 0x79, 0x5F, 0x6B, 0x65, 0x79, 0x5F, 0x5F]
   \<and> sanitizeKey [0x20, 0x6D, 0x79, 0x3000, 0x6B, 0xE9, 0x65, 0x79, 0x5F, 0x0A] True
     = [0x6D, 0x79, 0x5F, 0x6B, 0x65, 0x79]
   \<and> sanitizeKey (sanitizeKey [0x20, 0x6D, 0x79, 0x3000, 0x6B, 0xE9, 0x65, 0x79, 0x5F, 0x0A] True) True
     = [0x6D, 0x79, 0x5F, 0x6B, 0x65, 0x79]
   \<and> is_key_char 0x6D \<and> is_key_char 0x79 \<and> is_key_char 0x5F \<and> is_key_char 0x6B \<and> is_key_char 0x65"
proof -
  have t: "sanitizeKey [0x20, 0x6D, 0x79, 0x3000, 0x6B, 0xE9, 0x65, 0x79, 0x5F, 0x0A] True
             = [0x6D, 0x79, 0x5F, 0x6B, 0x65, 0x79]"
    by code_simp
  have m: "concat (map (\<lambda>u. if is_space u then [0x5F] else if is_key_char u then [u] else [])
                    [0x20, 0x6D, 0x79, 0x3000, 0x6B, 0xE9, 0x65, 0x79, 0x5F, 0x0A])
             = [0x5F, 0x6D, 0x79, 0x5F, 0x6B, 0x65, 0x79, 0x5F, 0x5F]"
    by (simp add: is_space_def is_key_char_def)
  from sanitizeKey_sound [of "[0x20, 0x6D, 0x79, 0x3000, 0x6B, 0xE9, 0x65, 0x79, 0x5F, 0x0A]" True]
  show ?thesis
    unfolding t m by simp
qed

text \<open>On a string of code units below 256 the conversions lose nothing.\<close>

lemma of_char_lt: "(of_char c :: nat) < 256"
proof -
  have "(of_char c :: nat) mod 256 < 256" by (rule mod_less_divisor) simp
  then show ?thesis by simp
qed

lemma chars_units: "chars (units s) = s"
proof -
  have "char_of (unat (word_of_nat (of_char c) :: 16 word)) = c" for c :: char
  proof -
    have "(of_char c :: nat) < 65536" using of_char_lt [of c] by linarith
    then have "(of_char c :: nat) mod 65536 = of_char c" by (rule mod_less)
    then show ?thesis by (simp add: unat_of_nat)
  qed
  then show ?thesis by (simp add: chars_def units_def map_idI)
qed

text \<open>A code unit below 256 is trimmed exactly when the class \<open>\s\<close> holds it.\<close>

lemma unit_eq_iff:
  assumes "n < 65536"
  shows "(word_of_nat (of_char c) :: 16 word) = word_of_nat n \<longleftrightarrow> (of_char c :: nat) = n"
proof -
  have "(of_char c :: nat) < 65536" using of_char_lt [of c] by linarith
  then have "unat (word_of_nat (of_char c) :: 16 word) = of_char c"
    by (simp add: unat_of_nat)
  moreover have "unat (word_of_nat n :: 16 word) = n"
    using assms by (simp add: unat_of_nat)
  ultimately show ?thesis by metis
qed

lemma is_white_space: "is_white c \<longleftrightarrow> is_space (word_of_nat (of_char c))"
proof
  assume "is_white c"
  then consider "c = CHR 0x09" | "c = CHR 0x0A" | "c = CHR 0x0B" | "c = CHR 0x0C"
    | "c = CHR 0x0D" | "c = CHR 0x20" | "c = CHR 0xA0"
    by (auto simp: is_white_def)
  then show "is_space (word_of_nat (of_char c))"
    by cases (simp_all add: is_space_def)
next
  assume a: "is_space (word_of_nat (of_char c))"
  have lt: "(of_char c :: nat) < 256" by (rule of_char_lt)
  have e: "(word_of_nat (of_char c) :: 16 word) = numeral k \<longleftrightarrow> (of_char c :: nat) = numeral k"
    if "(numeral k :: nat) < 65536" for k
    using unit_eq_iff [OF that, of c] by simp
  from a have "(of_char c :: nat) \<in> {0x09, 0x0A, 0x0B, 0x0C, 0x0D, 0x20, 0xA0}"
    using lt by (auto simp: is_space_def e)
  then have "char_of (of_char c :: nat) \<in> char_of ` {0x09 :: nat, 0x0A, 0x0B, 0x0C, 0x0D, 0x20, 0xA0}"
    by (rule imageI)
  moreover have "char_of (0x09 :: nat) = CHR 0x09" "char_of (0x0A :: nat) = CHR 0x0A"
    "char_of (0x0B :: nat) = CHR 0x0B" "char_of (0x0C :: nat) = CHR 0x0C"
    "char_of (0x0D :: nat) = CHR 0x0D" "char_of (0x20 :: nat) = CHR 0x20"
    "char_of (0xA0 :: nat) = CHR 0xA0"
    by code_simp+
  ultimately show "is_white c"
    by (simp add: is_white_def)
qed

section \<open>Verification: the free list query\<close>

lemma sorted_sizes_mono:
  assumes "sorted (map size_t xs)" "0 \<le> i" "i \<le> j" "j < int (length xs)"
  shows "size_t (xs ! nat i) \<le> size_t (xs ! nat j)"
proof -
  have "nat i \<le> nat j" "nat j < length (map size_t xs)" using assms by auto
  with assms(1) have "map size_t xs ! nat i \<le> map size_t xs ! nat j"
    by (rule sorted_nth_mono)
  then show ?thesis using assms by simp
qed

lemma binarySearch_loop_post:
  assumes "sorted (map size_t xs)" "bs_inv xs t l r res"
  shows "bs_post xs t (binarySearch_loop xs t l r res)"
  using assms
proof (induction xs t l r res rule: binarySearch_loop.induct)
  case (1 array target left right result)
  note srt = "1.prems"(1) and inv = "1.prems"(2)
  show ?case
  proof (cases "left \<le> right")
    case False
    with inv have lr: "left = right + 1" by (simp add: bs_inv_def)
    have "binarySearch_loop array target left right result = Inr result"
      using False by simp
    moreover have "bs_post array target (Inr result)"
      unfolding bs_post_def using inv lr
      by (intro exI [of _ left]) (auto simp: bs_inv_def)
    ultimately show ?thesis by simp
  next
    case True
    define mid where "mid = (left + right) div 2"
    have mid: "left \<le> mid" "mid \<le> right" "0 \<le> mid" "mid < int (length array)"
      using True inv by (auto simp: mid_def bs_inv_def)
    show ?thesis
    proof (cases "size_t (array ! nat mid) \<ge> target")
      case fits: True
      have "bs_inv array target left (mid - 1) (Some (array ! nat mid))"
        unfolding bs_inv_def
      proof (intro conjI allI impI)
        fix i assume i: "mid - 1 < i \<and> i < int (length array)"
        then have "size_t (array ! nat mid) \<le> size_t (array ! nat i)"
          using sorted_sizes_mono [OF srt, of mid i] mid by simp
        with fits show "target \<le> size_t (array ! nat i)" by simp
      qed (use inv mid in \<open>auto simp: bs_inv_def\<close>)
      then have "bs_post array target
                   (binarySearch_loop array target left (mid - 1) (Some (array ! nat mid)))"
        using "1.IH"(1) [OF True mid_def _ _ srt] mid fits by simp
      moreover have "binarySearch_loop array target left right result =
                     binarySearch_loop array target left (mid - 1) (Some (array ! nat mid))"
        using True mid fits
        by (subst binarySearch_loop.simps) (simp add: mid_def Let_def)
      ultimately show ?thesis by simp
    next
      case small: False
      have "bs_inv array target (mid + 1) right result"
        unfolding bs_inv_def
      proof (intro conjI allI impI)
        fix i assume i: "0 \<le> i \<and> i < mid + 1"
        then have "size_t (array ! nat i) \<le> size_t (array ! nat mid)"
          using sorted_sizes_mono [OF srt, of i mid] mid by simp
        with small show "size_t (array ! nat i) < target" by simp
      qed (use inv mid in \<open>auto simp: bs_inv_def\<close>)
      then have "bs_post array target (binarySearch_loop array target (mid + 1) right result)"
        using "1.IH"(2) [OF True mid_def _ _ srt] mid small by simp
      moreover have "binarySearch_loop array target left right result =
                     binarySearch_loop array target (mid + 1) right result"
        using True mid small
        by (subst binarySearch_loop.simps) (simp add: mid_def Let_def)
      ultimately show ?thesis by simp
    qed
  qed
qed

lemma binarySearch_post:
  assumes "sorted (map size_t xs)"
  shows "bs_post xs t (binarySearch xs t)"
  unfolding binarySearch_def
  by (rule binarySearch_loop_post [OF assms]) (simp add: bs_inv_def)


lemma sortBy_size_sorted: "sorted (map size_t (sortBy array ''size''))"
  by (simp add: sortBy_def field_def)

text \<open>
  Claim C10. On a non-empty free list sorted ascending by \<open>size\<close>,
  \<open>findSmallestFit('size', fit)\<close> throws nothing; it returns an element of the list whose
  size is the smallest size of the list that is at least \<open>fit\<close>, and it returns \<open>null\<close>
  exactly when every size of the list is below \<open>fit\<close>.
\<close>

theorem findSmallestFit_smallest:
  assumes "array \<noteq> []" and "sorted (map size_t array)"
  shows "case findSmallestFit array ''size'' fit of
           Inl e \<Rightarrow> False
         | Inr None \<Rightarrow> (\<forall>y\<in>set array. size_t y < fit)
         | Inr (Some e) \<Rightarrow>
             e \<in> set array \<and> fit \<le> size_t e
             \<and> (\<forall>y\<in>set array. fit \<le> size_t y \<longrightarrow> size_t e \<le> size_t y)"
proof -
  let ?n = "int (length array)"
  have nth: "\<And>y. y \<in> set array \<Longrightarrow> \<exists>i. 0 \<le> i \<and> i < ?n \<and> y = array ! nat i"
  proof -
    fix y assume "y \<in> set array"
    then obtain k where "k < length array" "array ! k = y" by (auto simp: in_set_conv_nth)
    then show "\<exists>i. 0 \<le> i \<and> i < ?n \<and> y = array ! nat i"
      by (intro exI [of _ "int k"]) simp
  qed
  have last: "last array = array ! nat (?n - 1)"
    using assms(1) by (simp add: last_conv_nth nat_diff_distrib')
  show ?thesis
  proof (cases "size_t (last array) \<ge> fit")
    case False
    have "\<forall>y\<in>set array. size_t y < fit"
    proof
      fix y assume "y \<in> set array"
      then obtain i where i: "0 \<le> i" "i < ?n" "y = array ! nat i" using nth by blast
      then have "size_t y \<le> size_t (last array)"
        using sorted_sizes_mono [OF assms(2), of i "?n - 1"] last by simp
      with False show "size_t y < fit" by simp
    qed
    moreover have "findSmallestFit array ''size'' fit = Inr None"
      using False assms(1) by (simp add: findSmallestFit_def field_def)
    ultimately show ?thesis by simp
  next
    case True
    from binarySearch_post [OF assms(2), of fit]
    obtain p where p: "0 \<le> p" "p \<le> ?n"
      "\<forall>i. 0 \<le> i \<and> i < p \<longrightarrow> size_t (array ! nat i) < fit"
      "\<forall>i. p \<le> i \<and> i < ?n \<longrightarrow> fit \<le> size_t (array ! nat i)"
      "binarySearch array fit = Inr (if p < ?n then Some (array ! nat p) else None)"
      unfolding bs_post_def by blast
    have "p < ?n"
    proof (rule ccontr)
      assume "\<not> p < ?n"
      then have "size_t (array ! nat (?n - 1)) < fit"
        using p(1,2,3) assms(1) by simp
      with True last show False by simp
    qed
    then have res: "findSmallestFit array ''size'' fit = Inr (Some (array ! nat p))"
      using True assms(1) p(5) by (simp add: findSmallestFit_def field_def)
    have "array ! nat p \<in> set array" using \<open>p < ?n\<close> p(1) by simp
    moreover have "fit \<le> size_t (array ! nat p)" using p(1,4) \<open>p < ?n\<close> by simp
    moreover have "\<forall>y\<in>set array. fit \<le> size_t y \<longrightarrow> size_t (array ! nat p) \<le> size_t y"
    proof (intro ballI impI)
      fix y assume "y \<in> set array" and fy: "fit \<le> size_t y"
      then obtain i where i: "0 \<le> i" "i < ?n" "y = array ! nat i" using nth by blast
      have "p \<le> i"
      proof (rule ccontr)
        assume "\<not> p \<le> i"
        then have "size_t (array ! nat i) < fit" using p(3) i(1) by simp
        with fy i(3) show False by simp
      qed
      then show "size_t (array ! nat p) \<le> size_t y"
        using sorted_sizes_mono [OF assms(2), of p i] p(1) i by simp
    qed
    ultimately show ?thesis using res by simp
  qed
qed

theorem findSmallestFit_smallest_witness:
  "findSmallestFit
     (sortBy [\<lparr>size_t = 5, position_t = - 1, length_t = 41\<rparr>,
              \<lparr>size_t = 2, position_t = - 1, length_t = 38\<rparr>,
              \<lparr>size_t = 8, position_t = - 1, length_t = 44\<rparr>] ''size'') ''size'' 3
     = Inr (Some \<lparr>size_t = 5, position_t = - 1, length_t = 41\<rparr>)
   \<and> findSmallestFit
     (sortBy [\<lparr>size_t = 5, position_t = - 1, length_t = 41\<rparr>,
              \<lparr>size_t = 2, position_t = - 1, length_t = 38\<rparr>,
              \<lparr>size_t = 8, position_t = - 1, length_t = 44\<rparr>] ''size'') ''size'' 9
     = Inr None"
proof -
  let ?a = "sortBy [\<lparr>size_t = 5, position_t = - 1, length_t = 41\<rparr>,
              \<lparr>size_t = 2, position_t = - 1, length_t = 38\<rparr>,
              \<lparr>size_t = 8, position_t = - 1, length_t = 44\<rparr>] ''size''"
  have a: "?a = [\<lparr>size_t = 2, position_t = - 1, length_t = 38\<rparr>,
                 \<lparr>size_t = 5, position_t = - 1, length_t = 41\<rparr>,
                 \<lparr>size_t = 8, position_t = - 1, length_t = 44\<rparr>]"
    by (simp add: sortBy_def field_def)
  have ne: "?a \<noteq> []" and srt: "sorted (map size_t ?a)"
    unfolding a by simp_all
  have "\<exists>e. findSmallestFit ?a ''size'' 3 = Inr (Some e) \<and> e \<in> set ?a \<and> 3 \<le> size_t e
            \<and> size_t e \<le> 5"
    using findSmallestFit_smallest [OF ne srt, of 3] unfolding a
    by (auto split: sum.splits option.splits)
  then have "findSmallestFit ?a ''size'' 3 = Inr (Some \<lparr>size_t = 5, position_t = - 1, length_t = 41\<rparr>)"
    unfolding a by auto
  moreover have "findSmallestFit ?a ''size'' 9 = Inr None"
    using findSmallestFit_smallest [OF ne srt, of 9] unfolding a
    by (auto split: sum.splits option.splits)
  ultimately show ?thesis by simp
qed

section \<open>Verification: the shard selector\<close>

lemma nextMeid_step:
  assumes "2 \<le> meids_size s" "- 1 \<le> current_meid s" "current_meid s < meids_size s"
  shows "current_meid (snd (nextMeid s)) = (current_meid s + 2) mod (meids_size s + 1) - 1"
    and "fst (nextMeid s) = max ((current_meid s + 2) mod (meids_size s + 1) - 1) 0"
    and "meids_size (snd (nextMeid s)) = meids_size s"
proof -
  let ?c = "current_meid s" and ?n = "meids_size s"
  have m: "(?c + 2) mod (?n + 1) = (if ?c + 1 \<ge> ?n then 0 else ?c + 2)"
  proof (cases "?c + 1 \<ge> ?n")
    case True
    then have "?c + 2 = ?n + 1" using assms by simp
    then have "(?c + 2) mod (?n + 1) = (?n + 1) mod (?n + 1)" by (rule arg_cong)
    then show ?thesis using True by simp
  next
    case False
    then have "0 \<le> ?c + 2" "?c + 2 < ?n + 1" using assms by simp_all
    then show ?thesis using False by (simp add: mod_pos_pos_trivial)
  qed
  show "current_meid (snd (nextMeid s)) = (?c + 2) mod (?n + 1) - 1"
    unfolding m using assms by (simp add: nextMeid_def Let_def)
  show "fst (nextMeid s) = max ((?c + 2) mod (?n + 1) - 1) 0"
    unfolding m using assms by (simp add: nextMeid_def Let_def)
  show "meids_size (snd (nextMeid s)) = ?n"
    by (simp add: nextMeid_def Let_def)
qed

text \<open>With two shards or more, the results repeat with period \<open>N + 1\<close>: shard 0 comes twice.\<close>

lemma nextMeid_calls_nth:
  assumes "2 \<le> meids_size s" "- 1 \<le> current_meid s" "current_meid s < meids_size s" "i < n"
  shows "fst (nextMeid_calls n s) ! i
           = max ((current_meid s + 2 + int i) mod (meids_size s + 1) - 1) 0"
  using assms
proof (induction n arbitrary: s i)
  case 0
  then show ?case by simp
next
  case (Suc n)
  let ?s1 = "snd (nextMeid s)"
  note st = nextMeid_step [OF Suc.prems(1-3)]
  have calls: "fst (nextMeid_calls (Suc n) s) = fst (nextMeid s) # fst (nextMeid_calls n ?s1)"
    by (simp add: case_prod_unfold Let_def)
  show ?case
  proof (cases i)
    case 0
    then show ?thesis using calls st(2) by simp
  next
    case (Suc j)
    define m where "m = (current_meid s + 2) mod (meids_size s + 1)"
    have "0 \<le> m" unfolding m_def by (rule pos_mod_sign) (use Suc.prems(1) in simp)
    moreover have "m < meids_size s + 1"
      unfolding m_def by (rule pos_mod_bound) (use Suc.prems(1) in simp)
    moreover have "current_meid ?s1 = m - 1" "meids_size ?s1 = meids_size s"
      using st by (simp_all add: m_def)
    ultimately have b: "- 1 \<le> current_meid ?s1" "current_meid ?s1 < meids_size ?s1"
        "2 \<le> meids_size ?s1"
      using Suc.prems(1) by simp_all
    have j: "j < n" using Suc Suc.prems(4) by simp
    have "fst (nextMeid_calls n ?s1) ! j
            = max ((current_meid ?s1 + 2 + int j) mod (meids_size ?s1 + 1) - 1) 0"
      by (rule Suc.IH [OF b(3) b(1) b(2) j])
    also have "(current_meid ?s1 + 2 + int j) mod (meids_size ?s1 + 1)
                 = ((current_meid s + 2) mod (meids_size s + 1) + (1 + int j)) mod (meids_size s + 1)"
      unfolding st(1) st(3) by (simp add: algebra_simps)
    also have "\<dots> = (current_meid s + 2 + (1 + int j)) mod (meids_size s + 1)"
      by (rule mod_add_left_eq)
    also have "current_meid s + 2 + (1 + int j) = current_meid s + 2 + int (Suc j)"
      by simp
    finally show ?thesis using calls Suc by simp
  qed
qed

text \<open>
  Claim C8 (the code departs from it). The claim asks for \<open>(k - 1) mod N\<close> at the \<open>k\<close>-th
  call. On a fresh store with two shards the first four calls return 0, 1, 0, 0: the
  fourth is 0 where the claim asks for 1, because the counter is reset to \<open>-1\<close> and the
  call that resets it returns \<open>max(-1, 0)\<close>.
\<close>

theorem nextMeid_two_shards_fourth_call:
  "fst (nextMeid_calls 4 (start \<lparr>meids_count = 2, meids_entry_size = 0, memory_monitor_on = False,
                               memory_max_size = 0, backup_size_limit = 0\<rparr>)) = [0, 1, 0, 0]"
  by (simp add: start_def nextMeid_def numeral_eq_Suc)

lemma start_shards:
  "meids_size (start cfg) = (if meids_count cfg \<le> 0 then 1 else meids_count cfg)"
  "current_meid (start cfg) = - 1"
  by (simp_all add: start_def Let_def max_def)

text \<open>
  The first round on a fresh store is as the round-robin asks: with \<open>N \<ge> 2\<close> shards the
  \<open>k\<close>-th call returns \<open>k - 1\<close> for \<open>k \<le> N\<close>, and the call after those returns \<open>0\<close>.
\<close>

lemma nextMeid_first_round:
  assumes "2 \<le> meids_count cfg" "int i < meids_count cfg" "i < n"
  shows "fst (nextMeid_calls n (start cfg)) ! i = int i"
proof -
  have "fst (nextMeid_calls n (start cfg)) ! i
          = max ((1 + int i) mod (meids_count cfg + 1) - 1) 0"
    using nextMeid_calls_nth [of "start cfg" i n] assms by (simp add: start_shards)
  also have "(1 + int i) mod (meids_count cfg + 1) = 1 + int i"
    using assms by (simp add: mod_pos_pos_trivial)
  finally show ?thesis by simp
qed

text \<open>From the second round on the results fall behind: call \<open>N + 2\<close> returns \<open>0\<close> again.\<close>

lemma nextMeid_second_round:
  assumes "2 \<le> meids_count cfg" "nat (meids_count cfg) + 1 < n"
  shows "fst (nextMeid_calls n (start cfg)) ! (nat (meids_count cfg) + 1) = 0"
proof -
  have "fst (nextMeid_calls n (start cfg)) ! (nat (meids_count cfg) + 1)
          = max ((1 + int (nat (meids_count cfg) + 1)) mod (meids_count cfg + 1) - 1) 0"
    using nextMeid_calls_nth [of "start cfg" "nat (meids_count cfg) + 1" n] assms
    by (simp add: start_shards)
  also have "(1 + int (nat (meids_count cfg) + 1)) mod (meids_count cfg + 1)
               = (1 + (meids_count cfg + 1)) mod (meids_count cfg + 1)"
    using assms by simp
  also have "\<dots> = 1 mod (meids_count cfg + 1)"
    by (rule mod_add_self2)
  also have "\<dots> = 1"
    using assms by (simp add: mod_pos_pos_trivial)
  finally show ?thesis by simp
qed

lemma nextMeid_single_shard:
  assumes "meids_size s \<le> 1" "i < n"
  shows "fst (nextMeid_calls n s) ! i = 0"
  using assms
proof (induction n arbitrary: i)
  case 0
  then show ?case by simp
next
  case (Suc n)
  have "nextMeid s = (0, s)" using Suc.prems(1) by (simp add: nextMeid_def)
  then have "fst (nextMeid_calls (Suc n) s) = 0 # fst (nextMeid_calls n s)"
    by (simp add: case_prod_unfold Let_def)
  then show ?case using Suc by (cases i) simp_all
qed

section \<open>Verification: the lockdown tracker\<close>

lemma map_of_update_same: "map_of (AList.update k v al) k = Some v"
  by (simp add: update_conv')

text \<open>What a failing attempt writes: the expiry is the clock in seconds plus a thousand
  times the cooldown, and the counter goes up by one.\<close>

lemma login_attempt_entry:
  assumes "0 < max_login_attempt c" and "lockdown_mode c = ''ip''"
  shows "map_of (lockdown (login_attempt c date_now (Some ip) False token cause)) ip
           = Some \<lparr>time_l = date_now div 1000 + cooldown c * 1000,
                   attempts = (case map_of (lockdown c) ip of None \<Rightarrow> 0 | Some e \<Rightarrow> attempts e) + 1\<rparr>"
  using assms
  by (cases "map_of (lockdown c) ip")
     (simp_all add: login_attempt_def updateLockdown_def now_def Let_def map_of_update_same)

lemma login_attempt_config:
  "max_login_attempt (login_attempt c date_now remote success token cause) = max_login_attempt c"
  "lockdown_mode (login_attempt c date_now remote success token cause) = lockdown_mode c"
  "cooldown (login_attempt c date_now remote success token cause) = cooldown c"
  by (simp_all add: login_attempt_def updateLockdown_def Let_def split: option.splits)

text \<open>
  Once the counter has reached the maximum, the subject stays locked for as long as the
  clock, in seconds, is at most the second of the last failure plus a thousand times the
  cooldown.
\<close>

lemma lockedDown_after_attempt:
  assumes "0 < max_login_attempt c" and "lockdown_mode c = ''ip''"
    and "0 \<le> date_now" and "0 < cooldown c"
    and "max_login_attempt c \<le> (case map_of (lockdown c) ip of None \<Rightarrow> 0 | Some e \<Rightarrow> attempts e) + 1"
  shows "lockedDown (login_attempt c date_now (Some ip) False token cause) later (Some ip)
           \<longleftrightarrow> later div 1000 \<le> date_now div 1000 + cooldown c * 1000"
proof -
  let ?c1 = "login_attempt c date_now (Some ip) False token cause"
  let ?n = "(case map_of (lockdown c) ip of None \<Rightarrow> 0 | Some e \<Rightarrow> attempts e) + 1"
  have e: "map_of (lockdown ?c1) ip
             = Some \<lparr>time_l = date_now div 1000 + cooldown c * 1000, attempts = ?n\<rparr>"
    by (rule login_attempt_entry [OF assms(1,2)])
  have "0 \<le> date_now div 1000" using assms(3) by simp
  then have t: "date_now div 1000 + cooldown c * 1000 \<noteq> 0" using assms(4) by simp
  have n: "?n \<noteq> 0" using assms(1,5) by simp
  show ?thesis
    using assms(1,2,5) t n
    by (simp add: lockedDown_def isLockedDown_def e login_attempt_config now_def)
qed

text \<open>
  Claim C4 (the code departs from it). With \<open>max_attempts = 1\<close> and a cooldown of 5
  seconds, one failed attempt from 10.0.0.1 at the millisecond 1000000 sets the expiry to
  \<open>1000 + 5 * 1000 = 6000\<close>: the handler adds the cooldown in milliseconds to the clock in
  seconds. The subject is locked at once, as claimed, and is still locked 6 seconds
  later, where the claim asks for the lockdown to be over.
\<close>

theorem lockdown_outlasts_cooldown:
  "map_of (lockdown (login_attempt
       \<lparr>max_login_attempt = 1, lockdown_mode = ''ip'', cooldown = 5, lockdown = [],
        lockdown_file = None\<rparr> 1000000 (Some ''10.0.0.1'') False ''guess'' ''credential''))
     ''10.0.0.1'' = Some \<lparr>time_l = 6000, attempts = 1\<rparr>
   \<and> lockedDown (login_attempt
       \<lparr>max_login_attempt = 1, lockdown_mode = ''ip'', cooldown = 5, lockdown = [],
        lockdown_file = None\<rparr> 1000000 (Some ''10.0.0.1'') False ''guess'' ''credential'')
       1000000 (Some ''10.0.0.1'')
   \<and> lockedDown (login_attempt
       \<lparr>max_login_attempt = 1, lockdown_mode = ''ip'', cooldown = 5, lockdown = [],
        lockdown_file = None\<rparr> 1000000 (Some ''10.0.0.1'') False ''guess'' ''credential'')
       1006000 (Some ''10.0.0.1'')"
  by (simp add: login_attempt_def lockedDown_def isLockedDown_def now_def)

section \<open>Verification: the core operations\<close>

text \<open>After \<open>#sha256\<close> has been called for a key, it answers the same digest again.\<close>

lemma sha256c_again:
  "sha256c sha (snd (sha256c sha s k True)) k True
     = (fst (sha256c sha s k True), snd (sha256c sha s k True))"
  by (cases "cache s (''key_hash_'' @ k)") (simp_all add: sha256c_def Let_def)

lemma sha256c_tables:
  "key_tbl (snd (sha256c sha s k c)) = key_tbl s"
  "key_proto (snd (sha256c sha s k c)) = key_proto s"
  "value_tbl (snd (sha256c sha s k c)) = value_tbl s"
  "trash (snd (sha256c sha s k c)) = trash s"
  "aol_worker (snd (sha256c sha s k c)) = aol_worker s"
  "current_meid (snd (sha256c sha s k c)) = current_meid s"
  "meids_size (snd (sha256c sha s k c)) = meids_size s"
  "max_memory (snd (sha256c sha s k c)) = max_memory s"
  "memory_monitor (snd (sha256c sha s k c)) = memory_monitor s"
  by (simp_all add: sha256c_def Let_def split: option.splits)

lemma sha256c_cache:
  "cache (snd (sha256c sha s k True)) (''key_hash_'' @ k) = Some (fst (sha256c sha s k True))"
  by (cases "cache s (''key_hash_'' @ k)") (simp_all add: sha256c_def Let_def)

text \<open>What the key table gives depends on its own properties and its prototype only.\<close>

lemma key_read_cong:
  assumes "key_tbl s' = key_tbl s" and "key_proto s' = key_proto s"
  shows "key_read s' k = key_read s k" and "lookupKey s' k = lookupKey s k"
    and "exist s' k = exist s k"
proof -
  show r: "key_read s' k = key_read s k"
    unfolding key_read_def assms ..
  show "lookupKey s' k = lookupKey s k"
    unfolding lookupKey_def r ..
  then show "exist s' k = exist s k"
    by (simp add: exist_def)
qed

text \<open>Writing the key table leaves the other fields alone.\<close>

lemma key_write_fields:
  "cache (key_write s k e) = cache s"
  "value_tbl (key_write s k e) = value_tbl s"
  "trash (key_write s k e) = trash s"
  "aol_worker (key_write s k e) = aol_worker s"
  "current_meid (key_write s k e) = current_meid s"
  "meids_size (key_write s k e) = meids_size s"
  "max_memory (key_write s k e) = max_memory s"
  "memory_monitor (key_write s k e) = memory_monitor s"
  by (simp_all add: key_write_def split: option.splits)

lemma key_write_memory:
  "key_write (s\<lparr>memory_monitor := b, max_memory := m\<rparr>) k e
     = (key_write s k e)\<lparr>memory_monitor := b, max_memory := m\<rparr>"
  by (simp add: key_write_def split: option.splits)

lemma key_read_sha256c: "key_read (snd (sha256c sha s k c)) k' = key_read s k'"
  by (rule key_read_cong) (simp_all add: sha256c_tables)

lemma exist_sha256c: "exist (snd (sha256c sha s k c)) k' = exist s k'"
  by (rule key_read_cong) (simp_all add: sha256c_tables)

text \<open>A key that is live reads as itself through \<open>lookupKey\<close>, and what it reads has a length.\<close>

lemma exist_read:
  assumes "exist s k"
  shows "lookupKey s k = key_read s k" and "\<exists>n. prop_length (key_read s k) = Some n \<and> 0 < n"
proof -
  show r: "lookupKey s k = key_read s k"
    using assms by (auto simp: exist_def lookupKey_def Let_def split: if_splits)
  show "\<exists>n. prop_length (key_read s k) = Some n \<and> 0 < n"
    using assms unfolding exist_def r by (cases "prop_length (key_read s k)") simp_all
qed

text \<open>An entry written under a key is what the key reads afterwards.\<close>

lemma key_read_write: "key_read (key_write s k (Some e)) k = PEntry e"
  by (simp add: key_read_def key_write_def)

lemma exist_write:
  assumes "0 < length_e e"
  shows "exist (key_write s k (Some e)) k"
  using assms by (simp add: exist_def lookupKey_def key_read_write)

text \<open>What \<open>setUnsafe\<close> does on a key that is not empty.\<close>

lemma setUnsafe_result:
  assumes "k \<noteq> []"
  shows "fst (setUnsafe sha s k v) = (if exist s k then 1 else 2)"
    and "value_tbl (snd (setUnsafe sha s k v)) (fst (sha256c sha s k True)) = Some v"
    and "cache (snd (setUnsafe sha s k v)) (''key_hash_'' @ k) = Some (fst (sha256c sha s k True))"
    and "aol_worker (snd (setUnsafe sha s k v)) = aol_worker s"
    and "trash (snd (setUnsafe sha s k v)) = trash s"
proof -
  obtain h s1 where h: "sha256c sha s k True = (h, s1)" by (cases "sha256c sha s k True")
  have s1: "s1 = snd (sha256c sha s k True)" "h = fst (sha256c sha s k True)" using h by simp_all
  have ex: "exist s1 k = exist s k" unfolding s1 by (rule exist_sha256c)
  have c1: "cache s1 (''key_hash_'' @ k) = Some h" unfolding s1 by (rule sha256c_cache)
  have t1: "aol_worker s1 = aol_worker s" "trash s1 = trash s" unfolding s1 by (simp_all add: sha256c_tables)
  show "fst (setUnsafe sha s k v) = (if exist s k then 1 else 2)"
    using assms h ex
    by (simp add: setUnsafe_def Let_def case_prod_unfold)
  show "value_tbl (snd (setUnsafe sha s k v)) (fst (sha256c sha s k True)) = Some v"
    using assms h
    by (simp add: setUnsafe_def Let_def case_prod_unfold setLookupValue_def)
  show "cache (snd (setUnsafe sha s k v)) (''key_hash_'' @ k) = Some (fst (sha256c sha s k True))"
    using assms h c1
    by (simp add: setUnsafe_def Let_def case_prod_unfold setLookupValue_def setLookupKey_def
        key_write_fields nextMeid_def)
  show "aol_worker (snd (setUnsafe sha s k v)) = aol_worker s"
    using assms h t1
    by (simp add: setUnsafe_def Let_def case_prod_unfold setLookupValue_def setLookupKey_def
        key_write_fields nextMeid_def)
  show "trash (snd (setUnsafe sha s k v)) = trash s"
    using assms h t1
    by (simp add: setUnsafe_def Let_def case_prod_unfold setLookupValue_def setLookupKey_def
        key_write_fields nextMeid_def)
qed

text \<open>A key that has been set is live.\<close>

lemma setUnsafe_exist:
  assumes "k \<noteq> []"
  shows "exist (snd (setUnsafe sha s k v)) k"
proof -
  obtain h s1 where h: "sha256c sha s k True = (h, s1)" by (cases "sha256c sha s k True")
  have ex: "exist s1 k = exist s k"
    using exist_sha256c [of sha s k True k] h by simp
  show ?thesis
  proof (cases "exist s k")
    case True
    have "exist (setLookupValue s1 h v) k = exist s1 k"
      by (rule key_read_cong) (simp_all add: setLookupValue_def)
    then show ?thesis
      using assms h ex True by (simp add: setUnsafe_def)
  next
    case False
    let ?e = "\<lparr>meid = fst (nextMeid s1), name = k, hash_str = h,
               size_e = int (length (toBuffer v)), position_e = - 1,
               length_e = 36 + int (length (toBuffer v))\<rparr>"
    let ?s3 = "key_write (snd (nextMeid s1)) k (Some ?e)"
    have a: "snd (setUnsafe sha s k v) = setLookupValue ?s3 h v"
      using assms h ex False
      by (simp add: setUnsafe_def setLookupKey_def Let_def case_prod_unfold)
    have "exist ?s3 k" by (rule exist_write) simp
    moreover have "exist (setLookupValue ?s3 h v) k = exist ?s3 k"
      by (rule key_read_cong) (simp_all add: setLookupValue_def)
    ultimately show ?thesis unfolding a by simp
  qed
qed

text \<open>\<open>get\<close> reads the value table at the digest the cache holds for the key.\<close>

lemma get_entry_cached:
  assumes "cache s (''key_hash_'' @ k) = Some h"
  shows "fst (get_entry sha s k d) = (case lookupValue s h of None \<Rightarrow> d | Some v \<Rightarrow> v)"
  using assms by (simp add: get_entry_def sha256c_def)

text \<open>\<open>set\<close> posts the request to the worker, then stores through \<open>setUnsafe\<close>.\<close>

lemma set_entry_posts:
  assumes "sanitizeKey_str k False \<noteq> []" and "aol_worker s = Some q"
  shows "set_entry sha s k v
           = Inr (setUnsafe sha
                    (s\<lparr>aol_worker := Some (q @ [\<lparr>action = ''set'', req_key = sanitizeKey_str k False,
                                                    req_value = v\<rparr>])\<rparr>)
                    (sanitizeKey_str k False) v)"
  using assms by (simp add: set_entry_def askWorker_def Let_def)

lemma set_entry_empty_key: "sanitizeKey_str k False = [] \<Longrightarrow> set_entry sha s k v = Inr (0, s)"
  by (simp add: set_entry_def)

text \<open>
  After a \<open>set\<close> that succeeds, \<open>get\<close> on the sanitized key returns the value set, unless
  that value is falsy: then it returns the default.
\<close>

lemma get_after_set:
  assumes "sanitizeKey_str k False \<noteq> []" and "aol_worker s \<noteq> None"
  shows "\<exists>r s'. set_entry sha s k v = Inr (r, s') \<and> (r = 1 \<or> r = 2)
           \<and> fst (get_entry sha s' (sanitizeKey_str k False) d) = (if falsy v then d else v)"
proof -
  let ?k = "sanitizeKey_str k False"
  obtain q where q: "aol_worker s = Some q" using assms(2) by blast
  let ?s1 = "s\<lparr>aol_worker := Some (q @ [\<lparr>action = ''set'', req_key = ?k, req_value = v\<rparr>])\<rparr>"
  let ?out = "setUnsafe sha ?s1 ?k v"
  have se: "set_entry sha s k v = Inr ?out"
    by (rule set_entry_posts [OF assms(1) q])
  have r: "fst ?out = 1 \<or> fst ?out = 2"
    using setUnsafe_result(1) [OF assms(1), of sha ?s1 v] by simp
  let ?h = "fst (sha256c sha ?s1 ?k True)"
  have "fst (get_entry sha (snd ?out) ?k d)
          = (case lookupValue (snd ?out) ?h of None \<Rightarrow> d | Some v \<Rightarrow> v)"
    by (rule get_entry_cached) (rule setUnsafe_result(3) [OF assms(1)])
  also have "lookupValue (snd ?out) ?h = (if falsy v then None else Some v)"
    using setUnsafe_result(2) [OF assms(1), of sha ?s1 v] by (simp add: lookupValue_def)
  finally have "fst (get_entry sha (snd ?out) ?k d) = (if falsy v then d else v)"
    by simp
  with se r show ?thesis
    by (intro exI [of _ "fst ?out"] exI [of _ "snd ?out"]) simp
qed

text \<open>
  What \<open>remove\<close> does on a live key: the slot it pushes holds what the key read, the key
  becomes an own property holding \<open>undefined\<close> (unless it is \<open>__proto__\<close>), the value is
  cleared, and nothing is posted to the backup worker.
\<close>

lemma remove_entry_live:
  assumes "exist s k"
  shows "\<exists>s'. remove_entry sha s k = (True, s')
           \<and> trash s' = trash s @ [\<lparr>slot_size = prop_size (key_read s k),
                                      slot_position = prop_position (key_read s k),
                                      slot_length = prop_length (key_read s k)\<rparr>]
           \<and> key_tbl s' = (if k = ''__proto__'' then key_tbl s else (key_tbl s)(k \<mapsto> None))
           \<and> key_proto s' = key_proto s
           \<and> value_tbl s' = (value_tbl s)(fst (sha256c sha s k True) := None)
           \<and> cache s' (''key_hash_'' @ k) = Some (fst (sha256c sha s k True))
           \<and> aol_worker s' = aol_worker s"
proof -
  obtain h s1 where h: "sha256c sha s k True = (h, s1)" by (cases "sha256c sha s k True")
  have s1: "s1 = snd (sha256c sha s k True)" "h = fst (sha256c sha s k True)" using h by simp_all
  have t: "key_tbl s1 = key_tbl s" "key_proto s1 = key_proto s" "value_tbl s1 = value_tbl s"
    "trash s1 = trash s" "aol_worker s1 = aol_worker s"
    unfolding s1 by (simp_all add: sha256c_tables)
  have r: "key_read s1 k = key_read s k" unfolding s1 by (rule key_read_sha256c)
  have c: "cache s1 (''key_hash_'' @ k) = Some h" unfolding s1 by (rule sha256c_cache)
  let ?s2 = "s1\<lparr>trash := trash s1 @ [\<lparr>slot_size = prop_size (key_read s k),
                                        slot_position = prop_position (key_read s k),
                                        slot_length = prop_length (key_read s k)\<rparr>]\<rparr>"
  let ?s3 = "key_write ?s2 k None"
  let ?s' = "?s3\<lparr>value_tbl := (value_tbl ?s3)(h := None)\<rparr>"
  have "remove_entry sha s k = (True, ?s')"
    using assms h r by (simp add: remove_entry_def Let_def)
  moreover have "trash ?s' = trash s @ [\<lparr>slot_size = prop_size (key_read s k),
                                      slot_position = prop_position (key_read s k),
                                      slot_length = prop_length (key_read s k)\<rparr>]"
    using t by (simp add: key_write_fields)
  moreover have "key_tbl ?s' = (if k = ''__proto__'' then key_tbl s else (key_tbl s)(k \<mapsto> None))"
    using t by (simp add: key_write_def)
  moreover have "key_proto ?s' = key_proto s"
    using t by (simp add: key_write_def)
  moreover have "value_tbl ?s' = (value_tbl s)(h := None)"
    using t by (simp add: key_write_fields)
  moreover have "cache ?s' (''key_hash_'' @ k) = Some h"
    using c by (simp add: key_write_fields)
  moreover have "aol_worker ?s' = aol_worker s"
    using t by (simp add: key_write_fields)
  ultimately show ?thesis
    unfolding s1(2) [symmetric] by blast
qed

lemma remove_entry_absent: "\<not> exist s k \<Longrightarrow> remove_entry sha s k = (False, s)"
  by (simp add: remove_entry_def)

text \<open>After a \<open>remove\<close> that succeeds, \<open>get\<close> returns the default.\<close>

lemma get_after_remove:
  assumes "remove_entry sha s k = (True, s')"
  shows "fst (get_entry sha s' k d) = d"
proof -
  have ex: "exist s k" using assms by (auto simp: remove_entry_def split: if_splits)
  from remove_entry_live [OF ex, of sha] assms
  have v: "value_tbl s' = (value_tbl s)(fst (sha256c sha s k True) := None)"
    and c: "cache s' (''key_hash_'' @ k) = Some (fst (sha256c sha s k True))"
    by auto
  show ?thesis
    unfolding get_entry_cached [OF c] by (simp add: lookupValue_def v)
qed

text \<open>
  A key the table holds itself is absent after its removal; the key \<open>__proto__\<close>, once
  set, stays live whatever is removed.
\<close>

lemma remove_entry_clears:
  assumes "remove_entry sha s k = (True, s')" and "k \<noteq> ''__proto__''"
  shows "\<not> exist s' k"
proof -
  have ex: "exist s k" using assms(1) by (auto simp: remove_entry_def split: if_splits)
  from remove_entry_live [OF ex, of sha] assms
  have "key_tbl s' = (key_tbl s)(k \<mapsto> None)" by auto
  then show ?thesis
    using assms(2) by (simp add: exist_def lookupKey_def key_read_def)
qed

lemma remove_entry_proto:
  assumes "remove_entry sha s ''__proto__'' = (True, s')"
  shows "exist s' ''__proto__''"
proof -
  have ex: "exist s ''__proto__''" using assms by (auto simp: remove_entry_def split: if_splits)
  from remove_entry_live [OF ex, of sha] assms
  have "key_tbl s' = key_tbl s" "key_proto s' = key_proto s" by auto
  then have "exist s' ''__proto__'' = exist s ''__proto__''" by (rule key_read_cong)
  with ex show ?thesis by simp
qed

text \<open>
  The keys a fresh store inherits from \<open>Object.prototype\<close>: \<open>constructor\<close> is live
  without having been set, and its removal pushes a slot read from the function found.
\<close>

lemma inherited_key_live:
  "exist (start cfg) ''constructor''"
  "\<not> exist (start cfg) ''toString''"
  "\<not> exist (start cfg) ''__proto__''"
  "fst (remove_entry sha (start cfg) ''constructor'')"
  "trash (snd (remove_entry sha (start cfg) ''constructor''))
     = [\<lparr>slot_size = None, slot_position = None, slot_length = Some 1\<rparr>]"
  "\<not> exist (snd (remove_entry sha (start cfg) ''constructor'')) ''constructor''"
proof -
  show ex: "exist (start cfg) ''constructor''"
    by (simp add: exist_def lookupKey_def key_read_def object_prototype_def start_def)
  show "\<not> exist (start cfg) ''toString''"
    by (simp add: exist_def lookupKey_def key_read_def object_prototype_def start_def)
  show "\<not> exist (start cfg) ''__proto__''"
    by (simp add: exist_def lookupKey_def key_read_def start_def)
  have r: "key_read (start cfg) ''constructor'' = PFunction 1"
    by (simp add: key_read_def object_prototype_def start_def)
  obtain s' where s': "remove_entry sha (start cfg) ''constructor'' = (True, s')"
    "trash s' = trash (start cfg) @ [\<lparr>slot_size = prop_size (key_read (start cfg) ''constructor''),
                     slot_position = prop_position (key_read (start cfg) ''constructor''),
                     slot_length = prop_length (key_read (start cfg) ''constructor'')\<rparr>]"
    using remove_entry_live [OF ex, of sha] by blast
  show "fst (remove_entry sha (start cfg) ''constructor'')" using s' by simp
  show "trash (snd (remove_entry sha (start cfg) ''constructor''))
     = [\<lparr>slot_size = None, slot_position = None, slot_length = Some 1\<rparr>]"
    using s' unfolding r by (simp add: start_def)
  show "\<not> exist (snd (remove_entry sha (start cfg) ''constructor'')) ''constructor''"
    using remove_entry_clears [OF s'(1)] s'(1) by simp
qed

text \<open>
  Once an entry has been set under \<open>__proto__\<close>, its fields are read under their names:
  \<open>name\<close> and \<open>hash_str\<close> are live without having been set.
\<close>

lemma proto_fields_live:
  assumes "key_proto s = Some e" and "name e \<noteq> []" and "key_tbl s ''name'' = None"
  shows "exist s ''name''"
  using assms by (simp add: exist_def lookupKey_def key_read_def entry_field_def)

text \<open>The memory limit the store holds has no part in \<open>setUnsafe\<close>.\<close>

lemma sha256c_memory:
  "sha256c sha (s\<lparr>memory_monitor := b, max_memory := m\<rparr>) k c
     = (fst (sha256c sha s k c), (snd (sha256c sha s k c))\<lparr>memory_monitor := b, max_memory := m\<rparr>)"
  by (simp add: sha256c_def Let_def split: option.splits)

lemma exist_memory: "exist (s\<lparr>memory_monitor := b, max_memory := m\<rparr>) k = exist s k"
  by (rule key_read_cong) simp_all

lemma nextMeid_memory:
  "nextMeid (s\<lparr>memory_monitor := b, max_memory := m\<rparr>)
     = (fst (nextMeid s), (snd (nextMeid s))\<lparr>memory_monitor := b, max_memory := m\<rparr>)"
  by (simp add: nextMeid_def Let_def)

lemma setLookupValue_memory:
  "setLookupValue (s\<lparr>memory_monitor := b, max_memory := m\<rparr>) h v
     = (setLookupValue s h v)\<lparr>memory_monitor := b, max_memory := m\<rparr>"
  by (simp add: setLookupValue_def)

lemma setUnsafe_memory:
  "setUnsafe sha (s\<lparr>memory_monitor := b, max_memory := m\<rparr>) k v
     = (fst (setUnsafe sha s k v), (snd (setUnsafe sha s k v))\<lparr>memory_monitor := b, max_memory := m\<rparr>)"
  by (simp add: setUnsafe_def sha256c_memory exist_memory nextMeid_memory setLookupKey_def
      key_write_memory setLookupValue_memory Let_def case_prod_unfold)

text \<open>
  Claim C1 (the code departs from it). On a fresh store \<open>set("k", 0)\<close> succeeds, as an
  insert, and \<open>get("k", "default")\<close> then returns \<open>"default"\<close>, not the 0 that was set:
  \<open>lookupValue\<close> is \<open>this.#lookup.value[hash] || undefined\<close>, which turns every falsy
  value (0, false, null, the empty string) into a missing one.
\<close>

theorem get_after_set_zero:
  "case set_entry sha256_hex
          (start \<lparr>meids_count = 1, meids_entry_size = 0, memory_monitor_on = False,
                  memory_max_size = 0, backup_size_limit = 0\<rparr>) ''k'' (VNum 0) of
     Inl e \<Rightarrow> False
   | Inr (r, s) \<Rightarrow>
       r = 2 \<and> value_tbl s (sha256_hex ''k'') = Some (VNum 0)
       \<and> fst (get_entry sha256_hex s ''k'' (VStr ''default'')) = VStr ''default''"
proof -
  let ?s0 = "start \<lparr>meids_count = 1, meids_entry_size = 0, memory_monitor_on = False,
                    memory_max_size = 0, backup_size_limit = 0\<rparr>"
  have k: "sanitizeKey_str ''k'' False = ''k''" by code_simp
  have w: "aol_worker ?s0 = Some []" by (simp add: start_def)
  let ?s1 = "?s0\<lparr>aol_worker := Some [\<lparr>action = ''set'', req_key = ''k'', req_value = VNum 0\<rparr>]\<rparr>"
  have se: "set_entry sha256_hex ?s0 ''k'' (VNum 0) = Inr (setUnsafe sha256_hex ?s1 ''k'' (VNum 0))"
    using set_entry_posts [of "''k''" ?s0 "[]" sha256_hex "VNum 0"] w by (simp add: k)
  have h: "fst (sha256c sha256_hex ?s1 ''k'' True) = sha256_hex ''k''"
    by (simp add: sha256c_def start_def Let_def)
  have ne: "''k'' \<noteq> []" by simp
  have "\<not> exist ?s1 ''k''"
    by (simp add: exist_def lookupKey_def key_read_def object_prototype_def start_def)
  then have r: "fst (setUnsafe sha256_hex ?s1 ''k'' (VNum 0)) = 2"
    using setUnsafe_result(1) [OF ne, of sha256_hex ?s1 "VNum 0"] by simp
  have v: "value_tbl (snd (setUnsafe sha256_hex ?s1 ''k'' (VNum 0))) (sha256_hex ''k'') = Some (VNum 0)"
    using setUnsafe_result(2) [OF ne, of sha256_hex ?s1 "VNum 0"] unfolding h .
  have c: "cache (snd (setUnsafe sha256_hex ?s1 ''k'' (VNum 0))) (''key_hash_'' @ ''k'')
             = Some (sha256_hex ''k'')"
    using setUnsafe_result(3) [OF ne, of sha256_hex ?s1 "VNum 0"] unfolding h .
  have g: "fst (get_entry sha256_hex (snd (setUnsafe sha256_hex ?s1 ''k'' (VNum 0))) ''k''
                  (VStr ''default'')) = VStr ''default''"
    unfolding get_entry_cached [OF c] by (simp add: lookupValue_def v)
  show ?thesis
    unfolding se using r v g by (simp add: case_prod_unfold)
qed

text \<open>The state of a fresh store after \<open>set("k", 1)\<close>.\<close>

lemma set_k_fresh:
  "set_entry sha256_hex
     (start \<lparr>meids_count = 1, meids_entry_size = 0, memory_monitor_on = False,
             memory_max_size = 0, backup_size_limit = 0\<rparr>) ''k'' (VNum 1)
   = Inr (2, \<lparr>memory_monitor = False, max_memory = None,
             key_tbl = [''k'' \<mapsto> Some \<lparr>meid = 0, name = ''k'', hash_str = sha256_hex ''k'',
                                       size_e = 1, position_e = - 1, length_e = 37\<rparr>],
             key_proto = None,
             value_tbl = [sha256_hex ''k'' \<mapsto> VNum 1], trash = [],
             cache = [''key_hash_k'' \<mapsto> sha256_hex ''k''], current_meid = - 1, meids_size = 1,
             aol_worker = Some [\<lparr>action = ''set'', req_key = ''k'', req_value = VNum 1\<rparr>]\<rparr>)"
proof -
  have k: "sanitizeKey_str ''k'' False = ''k''" by code_simp
  show ?thesis
    by (simp add: set_entry_def k askWorker_def start_def setUnsafe_def sha256c_def exist_def
        lookupKey_def key_read_def object_prototype_def key_write_def nextMeid_def
        setLookupKey_def setLookupValue_def msgpack_int_def Let_def)
qed

text \<open>
  Claim C2 (the code departs from it). On a fresh store, after \<open>set("k", 1)\<close>,
  \<open>remove("k")\<close> returns true, pushes the free slot of the entry, and \<open>k\<close> is absent
  afterwards; but the requests posted to the backup worker are still the one \<open>set\<close>
  request: no remove operation has been enqueued. The worker would refuse one, as its
  handler answers every action but \<open>set\<close> with an error and leaves the log as it is. The
  log format does have removals: \<open>encodeRemoval\<close> writes the line \<open>#k\<close>, which
  \<open>parseInstructions\<close> reads as the removal of \<open>k\<close>.
\<close>

theorem remove_posts_nothing:
  "(case set_entry sha256_hex
          (start \<lparr>meids_count = 1, meids_entry_size = 0, memory_monitor_on = False,
                  memory_max_size = 0, backup_size_limit = 0\<rparr>) ''k'' (VNum 1) of
      Inl e \<Rightarrow> False
    | Inr (r, s) \<Rightarrow>
        fst (remove_entry sha256_hex s ''k'')
        \<and> trash (snd (remove_entry sha256_hex s ''k''))
            = [\<lparr>slot_size = Some 1, slot_position = Some (- 1), slot_length = Some 37\<rparr>]
        \<and> \<not> exist (snd (remove_entry sha256_hex s ''k'')) ''k''
        \<and> aol_worker (snd (remove_entry sha256_hex s ''k''))
            = Some [\<lparr>action = ''set'', req_key = ''k'', req_value = VNum 1\<rparr>])
   \<and> on_message (worker (aol_new Map.empty) 0) \<lparr>action = ''remove'', req_key = ''k'', req_value = VNil\<rparr>
       = (worker (aol_new Map.empty) 0, False)
   \<and> encodeRemoval [''k''] = ''#k''
   \<and> parseInstructions parse ''#k'' = [IRemove [''k'']]"
proof -
  let ?s = "\<lparr>memory_monitor = False, max_memory = None,
             key_tbl = [''k'' \<mapsto> Some \<lparr>meid = 0, name = ''k'', hash_str = sha256_hex ''k'',
                                       size_e = 1, position_e = - 1, length_e = 37\<rparr>],
             key_proto = None,
             value_tbl = [sha256_hex ''k'' \<mapsto> VNum 1], trash = [],
             cache = [''key_hash_k'' \<mapsto> sha256_hex ''k''], current_meid = - 1, meids_size = 1,
             aol_worker = Some [\<lparr>action = ''set'', req_key = ''k'', req_value = VNum 1\<rparr>]\<rparr>"
  have rd: "key_read ?s ''k'' = PEntry \<lparr>meid = 0, name = ''k'', hash_str = sha256_hex ''k'',
                                       size_e = 1, position_e = - 1, length_e = 37\<rparr>"
    by (simp add: key_read_def)
  have ex: "exist ?s ''k''" by (simp add: exist_def lookupKey_def rd)
  obtain s' where s': "remove_entry sha256_hex ?s ''k'' = (True, s')"
    "trash s' = trash ?s @ [\<lparr>slot_size = prop_size (key_read ?s ''k''),
                             slot_position = prop_position (key_read ?s ''k''),
                             slot_length = prop_length (key_read ?s ''k'')\<rparr>]"
    "aol_worker s' = aol_worker ?s"
    using remove_entry_live [OF ex, of sha256_hex] by blast
  have ne: "\<not> exist s' ''k''"
    by (rule remove_entry_clears [OF s'(1)]) simp
  have e: "encodeRemoval [''k''] = ''#k''" by (simp add: encodeRemoval_def)
  have p: "parseInstructions parse ''#k'' = [IRemove [''k'']]" by code_simp
  show ?thesis
    unfolding set_k_fresh using s' ne e p unfolding rd by (simp add: on_message_def)
qed

text \<open>
  Whatever limit the store holds, \<open>set\<close> does the same: no size is compared with it.
  (\<open>meids.size\<close> does not even reach the store.)
\<close>

lemma set_entry_memory:
  "set_entry sha (s\<lparr>memory_monitor := b, max_memory := m\<rparr>) k v
     = (case set_entry sha s k v of
          Inl e \<Rightarrow> Inl e
        | Inr (r, s') \<Rightarrow> Inr (r, s'\<lparr>memory_monitor := b, max_memory := m\<rparr>))"
proof (cases "aol_worker s")
  case None
  then show ?thesis by (simp add: set_entry_def askWorker_def Let_def)
next
  case (Some q)
  have sw: "s\<lparr>memory_monitor := b, max_memory := m, aol_worker := Some (q @ [r])\<rparr>
              = s\<lparr>aol_worker := Some (q @ [r])\<rparr>\<lparr>memory_monitor := b, max_memory := m\<rparr>" for r
    by simp
  show ?thesis
    using Some
    by (simp add: set_entry_def askWorker_def Let_def sw setUnsafe_memory case_prod_unfold)
qed

text \<open>A \<open>set\<close> on a key whose sanitized form is not empty stores the value, whatever its size.\<close>

lemma set_entry_stores:
  assumes "sanitizeKey_str k False \<noteq> []" and "aol_worker s \<noteq> None"
  shows "\<exists>r s'. set_entry sha s k v = Inr (r, s') \<and> (r = 1 \<or> r = 2)
           \<and> value_tbl s' (fst (sha256c sha s (sanitizeKey_str k False) True)) = Some v
           \<and> exist s' (sanitizeKey_str k False)"
proof -
  let ?k = "sanitizeKey_str k False"
  obtain q where q: "aol_worker s = Some q" using assms(2) by blast
  let ?r = "\<lparr>action = ''set'', req_key = ?k, req_value = v\<rparr>"
  let ?s1 = "s\<lparr>aol_worker := Some (q @ [?r])\<rparr>"
  let ?out = "setUnsafe sha ?s1 ?k v"
  have se: "set_entry sha s k v = Inr ?out"
    by (rule set_entry_posts [OF assms(1) q])
  have r: "fst ?out = 1 \<or> fst ?out = 2"
    using setUnsafe_result(1) [OF assms(1), of sha ?s1 v] by simp
  have h: "fst (sha256c sha ?s1 ?k True) = fst (sha256c sha s ?k True)"
    by (simp add: sha256c_def Let_def split: option.splits)
  have v: "value_tbl (snd ?out) (fst (sha256c sha s ?k True)) = Some v"
    using setUnsafe_result(2) [OF assms(1), of sha ?s1 v] unfolding h .
  have ex: "exist (snd ?out) ?k" by (rule setUnsafe_exist [OF assms(1)])
  from se r v ex show ?thesis
    by (intro exI [of _ "fst ?out"] exI [of _ "snd ?out"]) simp
qed

lemma toBuffer_hello_world: "length (toBuffer (VStr ''hello world'')) = 12"
  by (simp add: msgpack_str_def utf8_def Let_def)

text \<open>
  Claim C3 (the code departs from it). With a per-entry limit of one byte and a memory
  cap of one byte configured, and the memory monitor on, \<open>set("k", "hello world")\<close> on a
  fresh store returns 2 and stores the value, whose encoding is 12 bytes long; the
  entry records the size 12 and the cap the store holds is still one byte.
\<close>

theorem set_exceeds_limits:
  "(case set_entry sha256_hex
          (start \<lparr>meids_count = 1, meids_entry_size = 1, memory_monitor_on = True,
                  memory_max_size = 1, backup_size_limit = 0\<rparr>) ''k'' (VStr ''hello world'') of
      Inl e \<Rightarrow> False
    | Inr (r, s) \<Rightarrow>
        r = 2
        \<and> memory_monitor s
        \<and> max_memory s = Some 1
        \<and> value_tbl s (sha256_hex ''k'') = Some (VStr ''hello world'')
        \<and> fst (get_entry sha256_hex s ''k'' VNil) = VStr ''hello world''
        \<and> prop_size (lookupKey s ''k'') = Some 12)
   \<and> length (toBuffer (VStr ''hello world'')) = 12"
proof -
  have k: "sanitizeKey_str ''k'' False = ''k''" by code_simp
  show ?thesis
    by (simp add: set_entry_def k askWorker_def start_def setUnsafe_def sha256c_def exist_def
        lookupKey_def key_read_def object_prototype_def key_write_def nextMeid_def
        setLookupKey_def setLookupValue_def get_entry_def lookupValue_def toBuffer_hello_world
        Let_def del: toBuffer.simps)
qed

section \<open>Verification: replay of the log\<close>

lemma split_on_not_Nil: "split_on c s \<noteq> []"
  by (induction s) (auto split: list.splits)

lemma split_on_append:
  "split_on c (a @ c # b) = split_on c a @ split_on c b"
proof (induction a)
  case Nil
  then show ?case by simp
next
  case (Cons x xs)
  then show ?case
    using split_on_not_Nil [of c xs]
    by (cases "split_on c xs") auto
qed

lemma split_on_no_sep: "c \<notin> set s \<Longrightarrow> split_on c s = [s]"
  by (induction s) auto

lemma js_trim_Nil: "js_trim [] = []"
  by (simp add: js_trim_def)

text \<open>A text that neither starts nor ends with whitespace is its own trimmed form.\<close>

lemma js_trim_id:
  assumes "s \<noteq> []" and "\<not> is_white (hd s)" and "\<not> is_white (last s)"
  shows "js_trim s = s"
proof -
  have a: "dropWhile is_white s = s"
    using assms(1,2) by (cases s) simp_all
  have "rev s \<noteq> []" "\<not> is_white (hd (rev s))"
    using assms(1,3) by (simp_all add: hd_rev)
  then have "dropWhile is_white (rev s) = rev s"
    by (cases "rev s") simp_all
  then show ?thesis by (simp add: js_trim_def a)
qed

text \<open>The instructions of a content are those of its lines, one after the other.\<close>

lemma parseInstructions_append:
  "parseInstructions p (a @ CHR 0x0A # b) = parseInstructions p a @ parseInstructions p b"
  by (simp add: parseInstructions_def split_on_append)

lemma parseInstructions_Nil: "parseInstructions p [] = []"
  by (simp add: parseInstructions_def js_trim_Nil)

lemma parseInstructions_newline:
  "parseInstructions p (content @ [CHR 0x0A]) = parseInstructions p content"
  using parseInstructions_append [of p content "[]"]
  by (simp add: parseInstructions_Nil)

lemma parseInstructions_line:
  assumes "CHR 0x0A \<notin> set line"
  shows "parseInstructions p line = line_instructions p (js_trim line)"
  using assms by (simp add: parseInstructions_def split_on_no_sep line_instructions_def)

lemma parseInstructions_comment:
  assumes "CHR 0x0A \<notin> set line" and "js_trim line = [] \<or> hd (js_trim line) = CHR '';''"
  shows "parseInstructions p line = []"
  using assms by (auto simp: parseInstructions_line line_instructions_def)

text \<open>A line \<open>k<t\<close> sets the key \<open>k\<close> to what the value parser makes of \<open>t\<close>.\<close>

lemma line_instructions_set:
  assumes "CHR ''<'' \<notin> set k" and "CHR ''<'' \<notin> set t"
    and "k \<noteq> []" and "hd k \<noteq> CHR '';''" and "hd k \<noteq> CHR ''#''" and "k \<noteq> ''__proto__''"
  shows "line_instructions p (k @ CHR ''<'' # t) = [ISet [(k, p t)]]"
proof -
  have s: "split_on (CHR ''<'') (k @ CHR ''<'' # t) = [k, t]"
    using assms(1,2) by (simp add: split_on_append split_on_no_sep)
  have h: "hd (k @ CHR ''<'' # t) = hd k" using assms(3) by simp
  show ?thesis
    using assms(3-6) by (simp add: line_instructions_def s h obj_set_def Let_def)
qed

lemma parseInstructions_set:
  assumes "CHR 0x0A \<notin> set (k @ t)" and "CHR ''<'' \<notin> set (k @ t)"
    and "k \<noteq> []" and "\<not> is_white (hd k)" and "hd k \<noteq> CHR '';''" and "hd k \<noteq> CHR ''#''"
    and "k \<noteq> ''__proto__''" and "t = [] \<or> \<not> is_white (last t)"
  shows "parseInstructions p (k @ CHR ''<'' # t) = [ISet [(k, p t)]]"
proof -
  let ?l = "k @ CHR ''<'' # t"
  have n: "CHR 0x0A \<notin> set ?l" using assms(1) by simp
  have "\<not> is_white (last ?l)"
    using assms(8) by (auto simp: is_white_def)
  moreover have "\<not> is_white (hd ?l)" using assms(3,4) by simp
  ultimately have "js_trim ?l = ?l" by (intro js_trim_id) simp_all
  then have "parseInstructions p ?l = line_instructions p ?l"
    using parseInstructions_line [OF n, of p] by simp
  also have "\<dots> = [ISet [(k, p t)]]"
    by (rule line_instructions_set) (use assms in simp_all)
  finally show ?thesis .
qed

text \<open>
  Claim C7, as amended. Replay ignores blank lines and lines that start with \<open>;\<close>. It does
  not ignore a final line without a newline: a newline at the end of the content makes
  no difference, the instructions of a content are those of its lines, the last one
  included, and a line \<open>k<t\<close> gives the instruction that sets \<open>k\<close> to the value of \<open>t\<close>
  wherever it stands. (A line is text without a line feed; \<open>k\<close> is not empty, holds no
  \<open><\<close>, starts with none of whitespace, \<open>;\<close> and \<open>#\<close>, and is not \<open>__proto__\<close>; \<open>t\<close>
  holds no \<open><\<close> and does not end with whitespace.) This holds whatever the value parser
  \<open>p\<close> makes of the texts of the values.
\<close>

theorem parseInstructions_final_line:
  "parseInstructions p (content @ [CHR 0x0A]) = parseInstructions p content
   \<and> parseInstructions p (content @ CHR 0x0A # line)
       = parseInstructions p content @ parseInstructions p line
   \<and> (CHR 0x0A \<notin> set line \<and> (js_trim line = [] \<or> hd (js_trim line) = CHR '';'')
        \<longrightarrow> parseInstructions p line = [])
   \<and> (CHR 0x0A \<notin> set (k @ t) \<and> CHR ''<'' \<notin> set (k @ t) \<and> k \<noteq> [] \<and> \<not> is_white (hd k)
        \<and> hd k \<noteq> CHR '';'' \<and> hd k \<noteq> CHR ''#'' \<and> k \<noteq> ''__proto__''
        \<and> (t = [] \<or> \<not> is_white (last t))
        \<longrightarrow> parseInstructions p (content @ CHR 0x0A # k @ CHR ''<'' # t)
              = parseInstructions p content @ [ISet [(k, p t)]])"
proof (intro conjI impI)
  show "parseInstructions p (content @ [CHR 0x0A]) = parseInstructions p content"
    by (rule parseInstructions_newline)
  show a: "parseInstructions p (content @ CHR 0x0A # line)
          = parseInstructions p content @ parseInstructions p line" for line
    by (rule parseInstructions_append)
  show "parseInstructions p line = []"
    if "CHR 0x0A \<notin> set line \<and> (js_trim line = [] \<or> hd (js_trim line) = CHR '';'')"
    using that parseInstructions_comment by blast
  show "parseInstructions p (content @ CHR 0x0A # k @ CHR ''<'' # t)
          = parseInstructions p content @ [ISet [(k, p t)]]"
    if h: "CHR 0x0A \<notin> set (k @ t) \<and> CHR ''<'' \<notin> set (k @ t) \<and> k \<noteq> [] \<and> \<not> is_white (hd k)
        \<and> hd k \<noteq> CHR '';'' \<and> hd k \<noteq> CHR ''#'' \<and> k \<noteq> ''__proto__''
        \<and> (t = [] \<or> \<not> is_white (last t))"
  proof -
    have "parseInstructions p (k @ CHR ''<'' # t) = [ISet [(k, p t)]]"
      by (rule parseInstructions_set) (use h in blast)+
    then show ?thesis unfolding a by simp
  qed
qed

theorem parseInstructions_final_line_witness:
  "parseInstructions parse (''a<1'' @ [CHR 0x0A]) = [ISet [(''a'', Some (VNum 1))]]
   \<and> parseInstructions parse (''a<1'' @ CHR 0x0A # '' ; not yet'') = [ISet [(''a'', Some (VNum 1))]]
   \<and> parseInstructions parse (''a<1'' @ CHR 0x0A # ''key<'' @ json_quote ''x'')
       = [ISet [(''a'', Some (VNum 1))], ISet [(''key'', Some (VStr ''x''))]]"
proof -
  have a: "parseInstructions parse ''a<1'' = [ISet [(''a'', Some (VNum 1))]]"
    by code_simp
  have t: "js_trim '' ; not yet'' = ''; not yet''"
    by code_simp
  have q: "json_quote ''x'' = [CHR 0x22, CHR ''x'', CHR 0x22]"
    by (simp add: json_quote_def json_escape_def)
  have v: "parse [CHR 0x22, CHR ''x'', CHR 0x22] = Some (VStr ''x'')"
    by code_simp
  from parseInstructions_final_line [of parse "''a<1''" "'' ; not yet''" "''key''" "json_quote ''x''"]
  show ?thesis
    unfolding q by (simp add: a t v is_white_def)
qed

text \<open>
  Claim C7 as stated fails: of the content \<open>a<1\<close>, newline, \<open>b<2\<close>, whose last line has no
  newline, both lines are replayed, and \<open>b\<close> is live afterwards.
\<close>

theorem final_line_replayed:
  "parseInstructions parse (''a<1'' @ CHR 0x0A # ''b<2'')
     = [ISet [(''a'', Some (VNum 1))], ISet [(''b'', Some (VNum 2))]]
   \<and> (case restore_backup sha256_hex
               (start \<lparr>meids_count = 1, meids_entry_size = 0, memory_monitor_on = False,
                       memory_max_size = 0, backup_size_limit = 0\<rparr>)
               (''a<1'' @ CHR 0x0A # ''b<2'') of
          None \<Rightarrow> False
        | Some s \<Rightarrow> exist s ''b'' \<and> fst (get_entry sha256_hex s ''b'' VNil) = VNum 2)"
proof -
  have p: "parseInstructions parse (''a<1'' @ CHR 0x0A # ''b<2'')
             = [ISet [(''a'', Some (VNum 1))], ISet [(''b'', Some (VNum 2))]]"
    by code_simp
  have k: "sanitizeKey_str ''a'' False = ''a''" "sanitizeKey_str ''b'' False = ''b''"
    by code_simp+
  have ne: "''b'' \<noteq> []" by simp
  have e: "exist (snd (setUnsafe sha256_hex s ''b'' v)) ''b''" for s v
    by (rule setUnsafe_exist) simp
  have g: "fst (get_entry sha256_hex (snd (setUnsafe sha256_hex s ''b'' (VNum 2))) ''b'' VNil) = VNum 2"
    for s
    unfolding get_entry_cached [OF setUnsafe_result(3) [OF ne]]
    using setUnsafe_result(2) [OF ne, of sha256_hex s "VNum 2"]
    by (simp add: lookupValue_def)
  show ?thesis
    unfolding restore_backup_def p using e g by (simp add: apply_instruction_def known_set_def k)
qed

section \<open>Verification: the log writer\<close>

lemma rotate_named: "current_file_name a = Some n \<Longrightarrow> rotate_file a date_now = a"
  by (simp add: rotate_file_def)

lemma rotate_first:
  "current_file_name a = None \<Longrightarrow>
   current_file_name (rotate_file a date_now) = Some (show_int (date_now div 1000) @ ''.sfb'')"
  by (simp add: rotate_file_def)

lemma file_name_kept:
  "current_file_name (add a k v) = current_file_name a"
  "current_file_name (jobs_tick a) = current_file_name a"
  "current_file_name (make_file a) = current_file_name a"
  "current_file_name (fst (on_message a r)) = current_file_name a"
  by (simp_all add: add_def jobs_tick_def make_file_def on_message_def split: option.splits)

lemma descriptor_kept:
  "file_descriptor (add a k v) = file_descriptor a"
  "file_descriptor (jobs_tick a) = file_descriptor a"
  "file_descriptor (rotate_file a date_now) = file_descriptor a"
  "file_descriptor (fst (on_message a r)) = file_descriptor a"
  by (simp_all add: add_def jobs_tick_def rotate_file_def on_message_def split: option.splits)

lemma jobs_tick_appends:
  assumes "file_descriptor a = Some n" and "instructions_changed a" and "queue a \<noteq> []"
  shows "disk (jobs_tick a) n
           = Some ((case disk a n of None \<Rightarrow> [] | Some c \<Rightarrow> c) @ encodeSets (queue a) @ [CHR 0x0A])"
    and "f \<noteq> n \<Longrightarrow> disk (jobs_tick a) f = disk a f"
  using assms by (simp_all add: jobs_tick_def)

text \<open>
  \<open>rotate\<close> names the file once, when there is no name yet, from the clock in seconds;
  once there is a name, \<open>rotate\<close>, \<open>add\<close>, the message handler and the periodic flush
  all keep it, and the flush appends to the open file and touches no other file,
  whatever the size the file reaches. No byte limit is among the data of the log.
\<close>

lemma aol_keeps_file:
  "current_file_name a = None \<Longrightarrow>
     current_file_name (rotate_file a date_now) = Some (show_int (date_now div 1000) @ ''.sfb'')"
  "current_file_name a = Some n \<Longrightarrow>
     rotate_file a date_now = a
     \<and> current_file_name (add a k v) = Some n
     \<and> current_file_name (fst (on_message a r)) = Some n
     \<and> current_file_name (jobs_tick a) = Some n"
  "file_descriptor a = Some n \<and> instructions_changed a \<and> queue a \<noteq> [] \<Longrightarrow>
     file_descriptor (jobs_tick a) = Some n
     \<and> disk (jobs_tick a) n
         = Some ((case disk a n of None \<Rightarrow> [] | Some c \<Rightarrow> c) @ encodeSets (queue a) @ [CHR 0x0A])
     \<and> (\<forall>f. f \<noteq> n \<longrightarrow> disk (jobs_tick a) f = disk a f)"
  by (simp_all add: rotate_named rotate_first file_name_kept descriptor_kept jobs_tick_appends)

lemma show_int_seconds: "show_int 1700000000 = ''1700000000''"
  by (simp add: show_int_def show_nat.simps digit_char_def)

text \<open>
  Claim C6 (the code departs from it). A log started at the millisecond 1700000000123
  writes to \<open>1700000000.sfb\<close>. With a byte limit of 16 configured, two sets flushed one
  after the other make that file 20 bytes long; the log still has the same file name,
  also after a \<open>rotate\<close> five seconds later, and the directory holds that one file.
\<close>

theorem aol_file_outgrows_limit:
  "let cfg = \<lparr>meids_count = 1, meids_entry_size = 0, memory_monitor_on = False,
              memory_max_size = 0, backup_size_limit = 16\<rparr>;
       a0 = worker (aol_new Map.empty) 1700000000123;
       a1 = jobs_tick (fst (on_message a0 \<lparr>action = ''set'', req_key = ''k'', req_value = VStr ''hello''\<rparr>));
       a2 = jobs_tick (fst (on_message a1 \<lparr>action = ''set'', req_key = ''j'', req_value = VStr ''world''\<rparr>));
       a3 = rotate_file a2 1700000005123
   in current_file_name a3 = Some ''1700000000.sfb''
      \<and> disk a3 ''1700000000.sfb''
          = Some (''k<'' @ json_quote ''hello'' @ [CHR 0x0A] @ ''j<'' @ json_quote ''world'' @ [CHR 0x0A])
      \<and> (case disk a3 ''1700000000.sfb'' of None \<Rightarrow> False
          | Some content \<Rightarrow> backup_size_limit cfg < int (length content))
      \<and> dom (disk a3) = {''1700000000.sfb''}"
proof -
  let ?n = "''1700000000.sfb''"
  let ?a0 = "worker (aol_new Map.empty) 1700000000123"
  have a0: "?a0 = \<lparr>queue = [], current_file_name = Some ?n, file_descriptor = Some ?n,
                    instructions_changed = False, disk = [?n \<mapsto> []]\<rparr>"
    by (simp add: worker_def make_file_def rotate_file_def aol_new_def show_int_seconds)
  have q: "json_quote ''hello'' = CHR 0x22 # ''hello'' @ [CHR 0x22]"
     "json_quote ''world'' = CHR 0x22 # ''world'' @ [CHR 0x22]"
    by (simp_all add: json_quote_def json_escape_def)
  let ?a1 = "jobs_tick (fst (on_message ?a0 \<lparr>action = ''set'', req_key = ''k'', req_value = VStr ''hello''\<rparr>))"
  have a1: "?a1 = \<lparr>queue = [], current_file_name = Some ?n, file_descriptor = Some ?n,
                    instructions_changed = False,
                    disk = [?n \<mapsto> ''k<'' @ json_quote ''hello'' @ [CHR 0x0A]]\<rparr>"
    unfolding a0
    by (simp add: on_message_def add_def obj_set_def jobs_tick_def encodeSets_def stringify_def)
  let ?a2 = "jobs_tick (fst (on_message ?a1 \<lparr>action = ''set'', req_key = ''j'', req_value = VStr ''world''\<rparr>))"
  have a2: "?a2 = \<lparr>queue = [], current_file_name = Some ?n, file_descriptor = Some ?n,
                    instructions_changed = False,
                    disk = [?n \<mapsto> ''k<'' @ json_quote ''hello'' @ [CHR 0x0A]
                                   @ ''j<'' @ json_quote ''world'' @ [CHR 0x0A]]\<rparr>"
    unfolding a1
    by (simp add: on_message_def add_def obj_set_def jobs_tick_def encodeSets_def stringify_def)
  have a3: "rotate_file ?a2 1700000005123 = ?a2"
    unfolding a2 by (simp add: rotate_file_def)
  show ?thesis
    unfolding Let_def a3 unfolding a2 by (simp add: q)
qed


section \<open>Verification: the text codec of the log\<close>

subsection \<open>Decimal numerals\<close>















subsection \<open>String literals\<close>






subsection \<open>Values\<close>

lemma json_ws_hd:
  "s = [] \<or> hd s \<notin> set [CHR 0x20, CHR 0x09, CHR 0x0A, CHR 0x0D] \<Longrightarrow> json_ws s = s"
  by (cases s) (auto simp: json_ws_def)




lemma json_ws_terminator: "rest = [] \<or> hd rest \<in> set '',]}:'' \<Longrightarrow> json_ws rest = rest"
  by (intro json_ws_hd) auto















subsection \<open>Objects\<close>

text \<open>A new key is appended when it is no array index, or an array index above the keys present.\<close>

lemma obj_define_append:
  assumes "k \<notin> fst ` set m"
    and "array_index k = None \<or>
         (\<forall>k'\<in>fst ` set m. \<exists>i i'. array_index k = Some i \<and> array_index k' = Some i' \<and> i' < i)"
  shows "obj_define k v m = m @ [(k, v)]"
  using assms
proof (induction m)
  case Nil
  then show ?case by simp
next
  case (Cons kv m)
  obtain k' v' where kv: "kv = (k', v')" by (cases kv)
  have ne: "k \<noteq> k'" using Cons.prems(1) kv by auto
  have ih: "obj_define k v m = m @ [(k, v)]"
    by (rule Cons.IH) (use Cons.prems in auto)
  from Cons.prems(2) show ?case
  proof
    assume "array_index k = None"
    then show ?thesis using ne ih kv by simp
  next
    assume "\<forall>k'\<in>fst ` set (kv # m). \<exists>i i'. array_index k = Some i \<and> array_index k' = Some i' \<and> i' < i"
    then obtain i i' where "array_index k = Some i" "array_index k' = Some i'" "i' < i"
      using kv by auto
    then show ?thesis using ne ih kv by simp
  qed
qed

text \<open>
  Lists of distinct keys in property order are objects: first the array indices,
  ascending, then the other keys.
\<close>

lemma js_object_ordered:
  assumes "distinct (map fst (idx @ str))"
    and "sorted_wrt (\<lambda>a b. \<exists>i j. array_index (fst a) = Some i \<and> array_index (fst b) = Some j \<and> i < j) idx"
    and "\<forall>kv\<in>set idx. array_index (fst kv) \<noteq> None"
    and "\<forall>kv\<in>set str. array_index (fst kv) = None"
  shows "js_object (idx @ str)"
proof -
  let ?f = "\<lambda>obj kv. obj_define (fst kv) (snd kv) obj"
  have a: "foldl ?f pre xs = pre @ xs"
    if "distinct (map fst (pre @ xs))"
      and "sorted_wrt (\<lambda>a b. \<exists>i j. array_index (fst a) = Some i \<and> array_index (fst b) = Some j \<and> i < j) (pre @ xs)"
    for pre xs :: "(string \<times> 'a) list"
    using that
  proof (induction xs arbitrary: pre)
    case Nil
    then show ?case by simp
  next
    case (Cons x xs)
    have "obj_define (fst x) (snd x) pre = pre @ [(fst x, snd x)]"
    proof (rule obj_define_append)
      show "fst x \<notin> fst ` set pre" using Cons.prems(1) by auto
      show "array_index (fst x) = None \<or>
            (\<forall>k'\<in>fst ` set pre. \<exists>i i'. array_index (fst x) = Some i \<and> array_index k' = Some i' \<and> i' < i)"
        using Cons.prems(2) by (fastforce simp: sorted_wrt_append)
    qed
    then have "foldl ?f pre (x # xs) = foldl ?f (pre @ [x]) xs" by simp
    also have "\<dots> = (pre @ [x]) @ xs"
      by (rule Cons.IH) (use Cons.prems in simp_all)
    finally show ?case by simp
  qed
  have b: "foldl ?f pre xs = pre @ xs"
    if "distinct (map fst (pre @ xs))" and "\<forall>kv\<in>set xs. array_index (fst kv) = None"
    for pre xs :: "(string \<times> 'a) list"
    using that
  proof (induction xs arbitrary: pre)
    case Nil
    then show ?case by simp
  next
    case (Cons x xs)
    have "obj_define (fst x) (snd x) pre = pre @ [(fst x, snd x)]"
      by (rule obj_define_append) (use Cons.prems in auto)
    then have "foldl ?f pre (x # xs) = foldl ?f (pre @ [x]) xs" by simp
    also have "\<dots> = (pre @ [x]) @ xs"
      by (rule Cons.IH) (use Cons.prems in simp_all)
    finally show ?case by simp
  qed
  have "foldl ?f [] (idx @ str) = foldl ?f (foldl ?f [] idx) str" by simp
  also have "foldl ?f [] idx = [] @ idx"
    by (rule a) (use assms in simp_all)
  also have "foldl ?f ([] @ idx) str = ([] @ idx) @ str"
    by (rule b) (use assms in simp_all)
  finally show ?thesis by (simp add: js_object_def)
qed

subsection \<open>The round trip\<close>




subsection \<open>Byte strings\<close>











end
